theory Spec2Isabelle
  imports Main "HOL-Library.Word"
begin

unbundle bit_operations_syntax

section \<open>Data model\<close>

text \<open>
  The module \<^verbatim>\<open>celfie.py\<close> hides a compressed and encrypted message in the
  least-significant bits of the RGB channel values of an image. Channel values and the bytes
  of every \<^verbatim>\<open>bytes\<close> object are 8-bit words; a Python \<^verbatim>\<open>str\<close> is the list of its
  code points; an image is what the code sees of it after \<^verbatim>\<open>convert('RGB')\<close>: its size
  and the list of its pixels (\<^verbatim>\<open>list(img.getdata())\<close>).
\<close>

type_synonym byte = "8 word"
type_synonym bytes = "byte list"
type_synonym pystr = "nat list"
type_synonym pixel = "byte \<times> byte \<times> byte"

record image =
  width :: nat
  height :: nat
  pixels :: "pixel list"

text \<open>
  A path either names nothing, or a file that \<^verbatim>\<open>Image.open\<close> can read, or a file that
  it cannot read. The file system is the only state that outlives a call.
\<close>

datatype fs_entry = ImageFile image | OtherFile

type_synonym filesystem = "pystr \<rightharpoonup> fs_entry"

text \<open>
  The exceptions that can leave the functions of the module. \<open>ValueError\<close> is the one
  \<^verbatim>\<open>encode\<close> raises when the image is too small; it carries the two bit counts of its
  message.
\<close>

datatype error =
    FileNotFoundError
  | UnidentifiedImageError
  | ValueError nat nat
  | IndexError
  | StructError
  | UnicodeEncodeError
  | UnicodeDecodeError
  | InvalidToken
  | ZlibError

definition str :: "string \<Rightarrow> pystr" where
  "str s = map of_char s"

definition SIGNATURE :: pystr where
  "SIGNATURE = str ''CELFIE''"

definition VERSION :: nat where
  "VERSION = 1"

definition HEADER_SIZE :: nat where
  "HEADER_SIZE = 74"

definition DELIMITER :: bytes where
  "DELIMITER = [0x00, 0xFF, 0x00, 0xFF, 0x00, 0xFF, 0x00, 0xFF]"

section \<open>Python built-ins used by the module\<close>

subsection \<open>Slices and suffixes\<close>

text \<open>\<^verbatim>\<open>xs[a:b]\<close> for \<open>0 \<le> a \<le> b\<close>, and \<^verbatim>\<open>s.endswith(suffix)\<close>.\<close>

definition list_slice :: "nat \<Rightarrow> nat \<Rightarrow> 'a list \<Rightarrow> 'a list" where
  "list_slice a b xs = take (b - a) (drop a xs)"

definition endswith :: "'a list \<Rightarrow> 'a list \<Rightarrow> bool" where
  "endswith s suffix \<longleftrightarrow>
     length suffix \<le> length s \<and> drop (length s - length suffix) s = suffix"

text \<open>\<^verbatim>\<open>range(a, b, step)\<close> for a positive step.\<close>

definition range_step :: "nat \<Rightarrow> nat \<Rightarrow> nat \<Rightarrow> nat list" where
  "range_step a b step = map (\<lambda>k. a + step * k) [0..<(b - a + step - 1) div step]"

subsection \<open>UTF-8\<close>

text \<open>
  \<^verbatim>\<open>s.encode('utf-8')\<close> raises \<^verbatim>\<open>UnicodeEncodeError\<close> on a lone surrogate and
  encodes every other code point in one to four bytes. \<^verbatim>\<open>b.decode('utf-8')\<close> is the
  strict decoder: it accepts the well-formed sequences only (no overlong form, no surrogate,
  nothing above U+10FFFF) and raises \<^verbatim>\<open>UnicodeDecodeError\<close> otherwise.
\<close>

definition scalar_value :: "nat \<Rightarrow> bool" where
  "scalar_value c \<longleftrightarrow> c < 0xD800 \<or> (0xE000 \<le> c \<and> c < 0x110000)"

definition utf8_char :: "nat \<Rightarrow> nat list" where
  "utf8_char c =
     (if c < 0x80 then [c]
      else if c < 0x800 then [0xC0 + c div 0x40, 0x80 + c mod 0x40]
      else if c < 0x10000 then
        [0xE0 + c div 0x1000, 0x80 + c div 0x40 mod 0x40, 0x80 + c mod 0x40]
      else
        [0xF0 + c div 0x40000, 0x80 + c div 0x1000 mod 0x40,
         0x80 + c div 0x40 mod 0x40, 0x80 + c mod 0x40])"

definition utf8_encode :: "pystr \<Rightarrow> error + bytes" where
  "utf8_encode s =
     (if list_all scalar_value s then Inr (map of_nat (concat (map utf8_char s)))
      else Inl UnicodeEncodeError)"

definition continuation :: "nat \<Rightarrow> bool" where
  "continuation b \<longleftrightarrow> 0x80 \<le> b \<and> b < 0xC0"

fun utf8_scan :: "nat list \<Rightarrow> pystr option" where
  "utf8_scan [] = Some []"
| "utf8_scan (b0 # bs) =
     (if b0 < 0x80 then map_option ((#) b0) (utf8_scan bs)
      else if 0xC2 \<le> b0 \<and> b0 < 0xE0 then
        (case bs of
           b1 # r \<Rightarrow>
             if continuation b1
             then map_option ((#) ((b0 - 0xC0) * 0x40 + (b1 - 0x80))) (utf8_scan r)
             else None
         | _ \<Rightarrow> None)
      else if 0xE0 \<le> b0 \<and> b0 < 0xF0 then
        (case bs of
           b1 # b2 # r \<Rightarrow>
             (let c = (b0 - 0xE0) * 0x1000 + (b1 - 0x80) * 0x40 + (b2 - 0x80)
              in if continuation b1 \<and> continuation b2 \<and> 0x800 \<le> c \<and> scalar_value c
                 then map_option ((#) c) (utf8_scan r)
                 else None)
         | _ \<Rightarrow> None)
      else if 0xF0 \<le> b0 \<and> b0 < 0xF5 then
        (case bs of
           b1 # b2 # b3 # r \<Rightarrow>
             (let c = (b0 - 0xF0) * 0x40000 + (b1 - 0x80) * 0x1000
                      + (b2 - 0x80) * 0x40 + (b3 - 0x80)
              in if continuation b1 \<and> continuation b2 \<and> continuation b3
                    \<and> 0x10000 \<le> c \<and> c < 0x110000
                 then map_option ((#) c) (utf8_scan r)
                 else None)
         | _ \<Rightarrow> None)
      else None)"

definition utf8_decode :: "bytes \<Rightarrow> error + pystr" where
  "utf8_decode bs =
     (case utf8_scan (map unat bs) of
        None \<Rightarrow> Inl UnicodeDecodeError
      | Some s \<Rightarrow> Inr s)"

subsection \<open>The struct module\<close>

text \<open>
  The format \<^verbatim>\<open>"<6sI32s16sQ8s"\<close> is little-endian without padding. A field \<^verbatim>\<open>Ns\<close>
  takes a byte string, cut or filled with zero bytes to \<open>N\<close> bytes; \<^verbatim>\<open>I\<close> and \<^verbatim>\<open>Q\<close>
  are unsigned integers of 4 and 8 bytes, and a value out of range raises
  \<^verbatim>\<open>struct.error\<close>. \<^verbatim>\<open>struct.unpack\<close> raises when the buffer has the wrong size.
\<close>

definition le_bytes :: "nat \<Rightarrow> nat \<Rightarrow> bytes" where
  "le_bytes k v = map (\<lambda>i. of_nat (v div 256 ^ i)) [0..<k]"

definition le_value :: "bytes \<Rightarrow> nat" where
  "le_value bs = foldr (\<lambda>b acc. unat b + 256 * acc) bs 0"

definition pack_s :: "nat \<Rightarrow> bytes \<Rightarrow> bytes" where
  "pack_s k bs = take k bs @ replicate (k - length bs) 0"

definition struct_pack_header ::
  "bytes \<Rightarrow> nat \<Rightarrow> bytes \<Rightarrow> bytes \<Rightarrow> nat \<Rightarrow> bytes \<Rightarrow> error + bytes" where
  "struct_pack_header signature_bytes version key salt data_length delimiter =
     (if 2 ^ 32 \<le> version \<or> 2 ^ 64 \<le> data_length then Inl StructError
      else Inr (pack_s 6 signature_bytes @ le_bytes 4 version @ pack_s 32 key
                @ pack_s 16 salt @ le_bytes 8 data_length @ pack_s 8 delimiter))"

definition struct_unpack_le :: "nat \<Rightarrow> bytes \<Rightarrow> error + nat" where
  "struct_unpack_le k bs = (if length bs \<noteq> k then Inl StructError else Inr (le_value bs))"

subsection \<open>Bit strings\<close>

text \<open>
  \<^verbatim>\<open>format(b, '08b')\<close> writes a byte as eight binary digits, the most significant first;
  \<^verbatim>\<open>int(s, 2)\<close> reads such a string back. A binary digit is a \<open>bool\<close>.
\<close>

definition format_08b :: "byte \<Rightarrow> bool list" where
  "format_08b b = map (\<lambda>j. bit b (7 - j)) [0..<8]"

definition int_base2 :: "bool list \<Rightarrow> nat" where
  "int_base2 digits = foldl (\<lambda>acc d. 2 * acc + of_bool d) 0 digits"

subsection \<open>Random bytes\<close>

text \<open>
  \<^verbatim>\<open>secrets.token_bytes(n)\<close> returns \<open>n\<close> bytes of a random source. The sources of
  one call of \<^verbatim>\<open>encode\<close> are inputs of the model: one for the key, one for the salt, and
  whatever \<^verbatim>\<open>Fernet.encrypt\<close> draws (its initialisation vector and the time).
\<close>

record 'r entropy =
  key_source :: "nat \<Rightarrow> byte"
  salt_source :: "nat \<Rightarrow> byte"
  fernet_random :: 'r

definition token_bytes :: "(nat \<Rightarrow> byte) \<Rightarrow> nat \<Rightarrow> bytes" where
  "token_bytes source n = map source [0..<n]"

subsection \<open>Library functions taken as parameters\<close>

text \<open>
  zlib, Fernet, base64, the case mapping of \<^verbatim>\<open>str.lower\<close>, \<^verbatim>\<open>os.path.splitext\<close> and
  the text drawing of PIL are not part of the module. They are parameters of the model.
  Decompression and decryption return \<open>None\<close> where the library raises.
  \<open>draw_text lib style text img i\<close> is the colour of pixel \<open>i\<close> once the text is drawn.
\<close>

record ('r, 's) library =
  zlib_compress :: "bytes \<Rightarrow> bytes"
  zlib_decompress :: "bytes \<Rightarrow> bytes option"
  urlsafe_b64encode :: "bytes \<Rightarrow> bytes"
  fernet_encrypt :: "bytes \<Rightarrow> 'r \<Rightarrow> bytes \<Rightarrow> bytes"
  fernet_decrypt :: "bytes \<Rightarrow> bytes \<Rightarrow> bytes option"
  str_lower :: "pystr \<Rightarrow> pystr"
  splitext :: "pystr \<Rightarrow> pystr \<times> pystr"
  draw_text :: "'s \<Rightarrow> pystr \<Rightarrow> image \<Rightarrow> nat \<Rightarrow> pixel"

section \<open>The module\<close>

subsection \<open>The raster as a flat list of channel values\<close>

text \<open>
  \<^verbatim>\<open>for pixel in pixels: flat_img.extend(pixel)\<close>, and the loop that cuts the flat list
  into tuples of \<^verbatim>\<open>channels = 3\<close> values again.
\<close>

definition flatten :: "pixel list \<Rightarrow> byte list" where
  "flatten ps = concat (map (\<lambda>(r, g, b). [r, g, b]) ps)"

fun regroup :: "byte list \<Rightarrow> pixel list" where
  "regroup (r # g # b # rest) = (r, g, b) # regroup rest"
| "regroup _ = []"

subsection \<open>Embedding and extraction\<close>

text \<open>
  \<^verbatim>\<open>binary_data = ''.join(format(b, '08b') for b in data_to_hide)\<close>, then
  \<^verbatim>\<open>for i, bit in enumerate(binary_data): if i < len(flat_img):
  flat_img[i] = (flat_img[i] & 0xFE) | int(bit)\<close>.
\<close>

definition binary_string :: "bytes \<Rightarrow> bool list" where
  "binary_string data = concat (map format_08b data)"

definition embed_step :: "byte list \<Rightarrow> nat \<times> bool \<Rightarrow> byte list" where
  "embed_step flat_img = (\<lambda>(i, d).
     if i < length flat_img
     then flat_img[i := (flat_img ! i AND 0xFE) OR of_bool d]
     else flat_img)"

definition embed_bits :: "bool list \<Rightarrow> byte list \<Rightarrow> byte list" where
  "embed_bits binary_data flat_img = foldl embed_step flat_img (enumerate 0 binary_data)"

text \<open>
  \<^verbatim>\<open>''.join(str(flat_img[i] & 1) for i in range(start, stop))\<close>: an index beyond the
  list raises \<^verbatim>\<open>IndexError\<close>. Then the loop that reads each full group of eight digits
  as a byte.
\<close>

definition lsb_bits :: "byte list \<Rightarrow> nat \<Rightarrow> nat \<Rightarrow> error + bool list" where
  "lsb_bits flat_img start stop =
     (if start < stop \<and> length flat_img < stop then Inl IndexError
      else Inr (map (\<lambda>i. flat_img ! i AND 1 = 1) [start..<stop]))"

definition bits_to_bytes :: "bool list \<Rightarrow> bytes" where
  "bits_to_bytes digits =
     map (\<lambda>i. of_nat (int_base2 (list_slice i (i + 8) digits)))
       (filter (\<lambda>i. i + 8 \<le> length digits) (range_step 0 (length digits) 8))"

subsection \<open>The visible watermark\<close>

text \<open>
  \<^verbatim>\<open>add_watermark\<close> copies the image and draws on the copy, or returns the image itself
  when drawing fails: either way the result has the size of the image and one pixel for each
  of its pixels.
\<close>

definition add_watermark :: "('r, 's) library \<Rightarrow> image \<Rightarrow> pystr \<Rightarrow> 's \<Rightarrow> image" where
  "add_watermark lib img text style =
     img\<lparr>pixels := map (draw_text lib style text img) [0..<length (pixels img)]\<rparr>"

subsection \<open>encode\<close>

text \<open>
  Lines 193 to 196: the message and the link are joined when the link is not empty.
\<close>

definition full_message :: "pystr \<Rightarrow> pystr \<Rightarrow> pystr" where
  "full_message message link =
     (if link \<noteq> [] then message @ str (CHR 0x0A # ''LINK:'') @ link else message)"

text \<open>
  Lines 198 to 209: the joined text is encoded as UTF-8, compressed, and encrypted under
  a fresh random key.
\<close>

definition encrypt_message ::
  "('r, 's) library \<Rightarrow> 'r entropy \<Rightarrow> pystr \<Rightarrow> pystr \<Rightarrow> error + bytes" where
  "encrypt_message lib rnd message link =
     (case utf8_encode (full_message message link) of
        Inl e \<Rightarrow> Inl e
      | Inr message_bytes \<Rightarrow>
          (let compressed_data = zlib_compress lib message_bytes;
               random_key = token_bytes (key_source rnd) 32;
               encryption_key = urlsafe_b64encode lib random_key
           in Inr (fernet_encrypt lib encryption_key (fernet_random rnd) compressed_data)))"

text \<open>
  Lines 213 to 223: the header, packed from the signature, the version, the raw key, the
  salt, the length of the encrypted data and the delimiter.
\<close>

definition pack_header :: "'r entropy \<Rightarrow> nat \<Rightarrow> error + bytes" where
  "pack_header rnd data_length =
     (let random_key = token_bytes (key_source rnd) 32;
          salt = token_bytes (salt_source rnd) 16
      in case utf8_encode SIGNATURE of
           Inl e \<Rightarrow> Inl e
         | Inr signature_bytes \<Rightarrow>
             struct_pack_header signature_bytes VERSION random_key salt data_length DELIMITER)"

text \<open>Line 226: \<^verbatim>\<open>data_to_hide = header + encrypted_data\<close>.\<close>

definition data_to_hide ::
  "('r, 's) library \<Rightarrow> 'r entropy \<Rightarrow> pystr \<Rightarrow> pystr \<Rightarrow> error + bytes" where
  "data_to_hide lib rnd message link =
     (case encrypt_message lib rnd message link of
        Inl e \<Rightarrow> Inl e
      | Inr ciphertext \<Rightarrow>
          (case pack_header rnd (length ciphertext) of
             Inl e \<Rightarrow> Inl e
           | Inr header_bytes \<Rightarrow> Inr (header_bytes @ ciphertext)))"

text \<open>
  Lines 183 to 186: the image that is embedded into, with the visible watermark when a
  non-empty text is given. Lines 189 and 190: the output path, forced to end in
  \<^verbatim>\<open>.png\<close>.
\<close>

definition watermarked :: "('r, 's) library \<Rightarrow> image \<Rightarrow> pystr option \<Rightarrow> 's \<Rightarrow> image" where
  "watermarked lib img watermark_text style =
     (case watermark_text of
        None \<Rightarrow> img
      | Some text \<Rightarrow> if text \<noteq> [] then add_watermark lib img text style else img)"

definition png_path :: "('r, 's) library \<Rightarrow> pystr \<Rightarrow> pystr" where
  "png_path lib output_path =
     (if \<not> endswith (str_lower lib output_path) (str ''.png'')
      then fst (splitext lib output_path) @ str ''.png''
      else output_path)"

text \<open>
  The whole of \<^verbatim>\<open>encode\<close>. The argument \<open>link_arg\<close> is \<open>None\<close> when the caller
  leaves the link out (its default is the empty string), and \<open>watermark_text\<close> is \<open>None\<close>
  by default. The result is the file system after the call and what the call returns or
  raises. The capacity is checked before the flat list of channel values is built, and the
  output file is written last, by \<^verbatim>\<open>encoded_img.save\<close>.
\<close>

definition encode ::
  "('r, 's) library \<Rightarrow> 'r entropy \<Rightarrow> filesystem \<Rightarrow> pystr \<Rightarrow> pystr \<Rightarrow> pystr \<Rightarrow> pystr option
     \<Rightarrow> pystr option \<Rightarrow> 's \<Rightarrow> filesystem \<times> (error + bool)" where
  "encode lib rnd fs input_path output_path message link_arg watermark_text style =
     (let link = (case link_arg of None \<Rightarrow> [] | Some l \<Rightarrow> l)
      in case fs input_path of
           None \<Rightarrow> (fs, Inl FileNotFoundError)
         | Some OtherFile \<Rightarrow> (fs, Inl UnidentifiedImageError)
         | Some (ImageFile img0) \<Rightarrow>
             (let width = image.width img0;
                  height = image.height img0;
                  img = watermarked lib img0 watermark_text style;
                  output_path = png_path lib output_path
              in case data_to_hide lib rnd message link of
                   Inl e \<Rightarrow> (fs, Inl e)
                 | Inr data \<Rightarrow>
                     (let binary_data = binary_string data;
                          capacity = width * height * 3
                      in if length binary_data > capacity
                         then (fs, Inl (ValueError (length binary_data) capacity))
                         else
                           (let flat_img = flatten (pixels img);
                                new_pixels = regroup (embed_bits binary_data flat_img);
                                encoded_img =
                                  \<lparr>width = width, height = height, pixels = new_pixels\<rparr>;
                                fs' = fs(output_path \<mapsto> ImageFile encoded_img)
                            in if fs' output_path = None
                               then (fs', Inl FileNotFoundError)
                               else (fs', Inr True)))))"

subsection \<open>decode\<close>

text \<open>Lines 342 to 348: decrypt, decompress, decode as UTF-8.\<close>

definition decrypt_message :: "('r, 's) library \<Rightarrow> bytes \<Rightarrow> bytes \<Rightarrow> error + pystr" where
  "decrypt_message lib encryption_key encrypted_data =
     (let fernet_key = urlsafe_b64encode lib encryption_key
      in case fernet_decrypt lib fernet_key encrypted_data of
           None \<Rightarrow> Inl InvalidToken
         | Some compressed_data \<Rightarrow>
             (case zlib_decompress lib compressed_data of
                None \<Rightarrow> Inl ZlibError
              | Some message_bytes \<Rightarrow> utf8_decode message_bytes))"

text \<open>
  Lines 301 to 307: the first \<open>HEADER_SIZE * 8\<close> low-order bits of the raster, read as
  bytes. Lines 332 to 340: the \<open>data_length * 8\<close> low-order bits that follow, read as
  bytes.
\<close>

definition extract_header :: "byte list \<Rightarrow> error + bytes" where
  "extract_header flat_img =
     (case lsb_bits flat_img 0 (HEADER_SIZE * 8) of
        Inl e \<Rightarrow> Inl e
      | Inr header_bits \<Rightarrow> Inr (bits_to_bytes header_bits))"

definition extract_data :: "byte list \<Rightarrow> nat \<Rightarrow> error + bytes" where
  "extract_data flat_img data_length =
     (let data_start = HEADER_SIZE * 8
      in case lsb_bits flat_img data_start (data_start + data_length * 8) of
           Inl e \<Rightarrow> Inl e
         | Inr data_bits \<Rightarrow> Inr (bits_to_bytes data_bits))"

text \<open>
  Lines 318 to 322: the version, the key, the salt and the length of the data, read from
  the header bytes at their offsets.
\<close>

definition read_header :: "bytes \<Rightarrow> error + nat \<times> bytes \<times> bytes \<times> nat" where
  "read_header header_bytes =
     (case struct_unpack_le 4 (list_slice 6 10 header_bytes) of
        Inl e \<Rightarrow> Inl e
      | Inr version \<Rightarrow>
          (let encryption_key = list_slice 10 42 header_bytes;
               salt = list_slice 42 58 header_bytes
           in case struct_unpack_le 8 (list_slice 58 66 header_bytes) of
                Inl e \<Rightarrow> Inl e
              | Inr data_length \<Rightarrow> Inr (version, encryption_key, salt, data_length)))"

text \<open>
  The body of the \<^verbatim>\<open>try\<close> block, lines 311 to 351. \<open>Inl\<close> is an exception raised
  inside the block, \<open>Inr None\<close> an early \<^verbatim>\<open>return None\<close>.
\<close>

definition decode_try ::
  "('r, 's) library \<Rightarrow> byte list \<Rightarrow> bytes \<Rightarrow> error + pystr option" where
  "decode_try lib flat_img header_bytes =
     (case utf8_decode (list_slice 0 6 header_bytes) of
        Inl e \<Rightarrow> Inl e
      | Inr signature \<Rightarrow>
          if signature \<noteq> SIGNATURE then Inr None
          else
            (case read_header header_bytes of
               Inl e \<Rightarrow> Inl e
             | Inr (version, encryption_key, salt, data_length) \<Rightarrow>
                 (let max_data = int (length flat_img) - int (HEADER_SIZE * 8)
                  in if int data_length > max_data \<or> data_length > 10000000
                     then Inr None
                     else
                       (case extract_data flat_img data_length of
                          Inl e \<Rightarrow> Inl e
                        | Inr encrypted_data \<Rightarrow>
                            (case decrypt_message lib encryption_key encrypted_data of
                               Inl e \<Rightarrow> Inl e
                             | Inr message \<Rightarrow> Inr (Some message))))))"

text \<open>
  \<^verbatim>\<open>decode\<close> from the loaded image on: the header is read before the
  \<^verbatim>\<open>try\<close> block, and both \<^verbatim>\<open>except\<close> clauses turn an exception of the block into
  \<^verbatim>\<open>return None\<close>.
\<close>

definition decode_image :: "('r, 's) library \<Rightarrow> image \<Rightarrow> error + pystr option" where
  "decode_image lib img =
     (let flat_img = flatten (pixels img)
      in case extract_header flat_img of
           Inl e \<Rightarrow> Inl e
         | Inr header_bytes \<Rightarrow>
             (case decode_try lib flat_img header_bytes of
                Inl e \<Rightarrow> Inr None
              | Inr result \<Rightarrow> Inr result))"

definition decode :: "('r, 's) library \<Rightarrow> filesystem \<Rightarrow> pystr \<Rightarrow> error + pystr option" where
  "decode lib fs image_path =
     (case fs image_path of
        None \<Rightarrow> Inl FileNotFoundError
      | Some OtherFile \<Rightarrow> Inl UnidentifiedImageError
      | Some (ImageFile img) \<Rightarrow> decode_image lib img)"

subsection \<open>verify_image\<close>

text \<open>The bare \<^verbatim>\<open>except\<close> clause catches whatever \<^verbatim>\<open>decode\<close> raises.\<close>

definition verify_image :: "('r, 's) library \<Rightarrow> filesystem \<Rightarrow> pystr \<Rightarrow> error + bool" where
  "verify_image lib fs image_path =
     (case decode lib fs image_path of
        Inl e \<Rightarrow> Inr False
      | Inr result \<Rightarrow> Inr (result \<noteq> None))"

section \<open>A small instance of the library\<close>

text \<open>
  An instance of the library parameters on which the hypotheses of the theorems below can be
  checked: compression puts one byte in front, encryption puts the key in front and
  decryption refuses a token that does not start with the key, nothing is drawn.
\<close>

definition plain_library :: "(unit, unit) library" where
  "plain_library =
     \<lparr>zlib_compress = (\<lambda>d. 0x78 # d),
      zlib_decompress = (\<lambda>d. case d of [] \<Rightarrow> None | b # r \<Rightarrow> if b = 0x78 then Some r else None),
      urlsafe_b64encode = (\<lambda>k. k),
      fernet_encrypt = (\<lambda>k r d. k @ d),
      fernet_decrypt =
        (\<lambda>k t. if take (length k) t = k then Some (drop (length k) t) else None),
      str_lower = (\<lambda>s. s),
      splitext = (\<lambda>p. (p, [])),
      draw_text = (\<lambda>style text img i. pixels img ! i)\<rparr>"

definition zero_entropy :: "unit entropy" where
  "zero_entropy = \<lparr>key_source = (\<lambda>i. 0), salt_source = (\<lambda>i. 0), fernet_random = ()\<rparr>"

definition blank_image :: "nat \<Rightarrow> nat \<Rightarrow> image" where
  "blank_image w h = \<lparr>width = w, height = h, pixels = replicate (w * h) (0, 0, 0)\<rparr>"

section \<open>Auxiliary notions\<close>

text \<open>
  The 74 bytes of a header, field after field; the six bytes of the signature; the header
  that \<^verbatim>\<open>encode\<close> packs for encrypted data of \<open>n\<close> bytes.
\<close>

definition header_layout :: "bytes \<Rightarrow> bytes \<Rightarrow> bytes \<Rightarrow> bytes \<Rightarrow> bytes \<Rightarrow> bytes \<Rightarrow> bytes" where
  "header_layout s v k t n d = s @ v @ k @ t @ n @ d"

definition signature_bytes :: bytes where
  "signature_bytes = [0x43, 0x45, 0x4C, 0x46, 0x49, 0x45]"

definition framed_header :: "'r entropy \<Rightarrow> nat \<Rightarrow> bytes" where
  "framed_header rnd n =
     header_layout signature_bytes (le_bytes 4 VERSION) (token_bytes (key_source rnd) 32)
       (token_bytes (salt_source rnd) 16) (le_bytes 8 n) DELIMITER"

text \<open>
  What the theorems on decoding ask of the libraries: decompression undoes compression, and
  decryption under a 32-byte key undoes encryption under the same key.
\<close>

definition library_inverts :: "('r, 's) library \<Rightarrow> bool" where
  "library_inverts lib \<longleftrightarrow>
     (\<forall>d. zlib_decompress lib (zlib_compress lib d) = Some d) \<and>
     (\<forall>key r d. length key = 32 \<longrightarrow>
        fernet_decrypt lib (urlsafe_b64encode lib key)
          (fernet_encrypt lib (urlsafe_b64encode lib key) r d) = Some d)"

text \<open>
  An image of \<open>n\<close> pixels in one row whose raster is all zero but for the digits of
  \<open>data\<close> in its low-order bits.
\<close>

definition carrier :: "bytes \<Rightarrow> nat \<Rightarrow> image" where
  "carrier data n =
     \<lparr>width = n, height = 1,
      pixels = regroup (embed_bits (binary_string data) (replicate (3 * n) 0))\<rparr>"

text \<open>
  Values of the real libraries. A random source that gives the key
  \<^verbatim>\<open>00 01 ... 1F\<close> and a salt of zero bytes; the Fernet key that
  \<^verbatim>\<open>base64.urlsafe_b64encode\<close> makes of this key; the ten bytes of
  \<^verbatim>\<open>zlib.compress(b"hi", level=9)\<close>; and the Fernet token of these ten bytes under
  this key, with the initialisation vector \<^verbatim>\<open>10 11 ... 1F\<close> and the time 1700000000.
  \<open>recorded_library\<close> answers as zlib, base64 and Fernet do on these values, and as
  \<open>plain_library\<close> elsewhere when it compresses and encrypts; it refuses to decrypt or to
  decompress anything else.
\<close>

definition ascii :: "string \<Rightarrow> bytes" where
  "ascii s = map of_char s"

definition counting_entropy :: "unit entropy" where
  "counting_entropy = \<lparr>key_source = of_nat, salt_source = (\<lambda>i. 0), fernet_random = ()\<rparr>"

definition recorded_key :: bytes where
  "recorded_key = token_bytes (key_source counting_entropy) 32"

definition recorded_fernet_key :: bytes where
  "recorded_fernet_key = ascii ''AAECAwQFBgcICQoLDA0ODxAREhMUFRYXGBkaGxwdHh8=''"

definition recorded_compressed :: bytes where
  "recorded_compressed = [0x78, 0xDA, 0xCB, 0xC8, 0x04, 0x00, 0x01, 0x3B, 0x00, 0xD2]"

definition recorded_token :: bytes where
  "recorded_token =
     ascii (''gAAAAABlU_EAEBESExQVFhcYGRobHB0eHz7qOouLx77YQ0ADRLVJ''
            @ ''3HPcHCIL32W1zXwdfSdBHSjxIZwMvLg7zKDMbGRUbyp2Kg=='')"

definition recorded_library :: "(unit, unit) library" where
  "recorded_library =
     \<lparr>zlib_compress = (\<lambda>d. if d = [0x68, 0x69] then recorded_compressed else 0x78 # d),
      zlib_decompress = (\<lambda>d. if d = recorded_compressed then Some [0x68, 0x69] else None),
      urlsafe_b64encode = (\<lambda>k. if k = recorded_key then recorded_fernet_key else k),
      fernet_encrypt =
        (\<lambda>k r d. if k = recorded_fernet_key \<and> d = recorded_compressed then recorded_token
                 else k @ d),
      fernet_decrypt =
        (\<lambda>k t. if k = recorded_fernet_key \<and> t = recorded_token then Some recorded_compressed
               else None),
      str_lower = (\<lambda>s. s),
      splitext = (\<lambda>p. (p, [])),
      draw_text = (\<lambda>style text img i. pixels img ! i)\<rparr>"

text \<open>
  A header with the signature, version 1, the recorded key, a length of 100 and a delimiter
  of eight zero bytes; and the image of 464 by 1 pixels that carries this header followed by
  the recorded token.
\<close>

definition zero_delimiter_header :: bytes where
  "zero_delimiter_header =
     header_layout signature_bytes (le_bytes 4 VERSION) recorded_key
       (token_bytes (salt_source counting_entropy) 16) (le_bytes 8 100)
       [0, 0, 0, 0, 0, 0, 0, 0]"

definition zero_delimiter_image :: image where
  "zero_delimiter_image = carrier (zero_delimiter_header @ recorded_token) 464"

text \<open>
  A text that does not compress: \<open>lcg_text n x\<close> is the \<open>n\<close> characters whose code
  points are the top seven bits of the successive states of the linear congruential
  generator \<open>y = (1103515245 * x + 12345) mod 2^31\<close>, started at \<open>x\<close>. In Python:
  \<^verbatim>\<open>for _ in range(n): x = (1103515245 * x + 12345) % 2147483648; s += chr(x // 16777216)\<close>.
\<close>

primrec lcg_text :: "nat \<Rightarrow> nat \<Rightarrow> pystr" where
  "lcg_text 0 x = []"
| "lcg_text (Suc n) x =
     (let y = (1103515245 * x + 12345) mod 2147483648
      in (y div 16777216) # lcg_text n y)"

section \<open>Lemmas\<close>

subsection \<open>Binary digits and bytes\<close>

lemma length_format_08b: "length (format_08b b) = 8"
  by (simp add: format_08b_def)

lemma foldl_horner_sum:
  "foldl (\<lambda>acc d. 2 * acc + of_bool d) 0 (rev ds) = horner_sum of_bool (2::nat) ds"
  by (induction ds) simp_all

lemma format_08b_rev: "format_08b b = rev (map (bit b) [0..<8])"
  by (simp add: format_08b_def upt_rec numeral_nat)

lemma word_of_horner_sum:
  "(of_nat (horner_sum of_bool (2::nat) ds) :: byte) = horner_sum of_bool 2 ds"
  by (induction ds) simp_all

lemma int_base2_format_08b: "of_nat (int_base2 (format_08b b)) = b"
proof -
  have "int_base2 (format_08b b) = horner_sum of_bool (2::nat) (map (bit b) [0..<8])"
    unfolding int_base2_def format_08b_rev by (rule foldl_horner_sum)
  then have "(of_nat (int_base2 (format_08b b)) :: byte) = take_bit 8 b"
    by (simp add: word_of_horner_sum horner_sum_bit_eq_take_bit)
  then show ?thesis by (simp add: take_bit_word_eq_self)
qed

lemma nth_format_08b: "j < 8 \<Longrightarrow> format_08b b ! j = bit b (7 - j)"
  by (simp add: format_08b_def)

lemma full_groups:
  "filter (\<lambda>i. i + 8 \<le> n) (range_step 0 n 8) = map (\<lambda>k. 8 * k) [0..<n div 8]"
proof -
  have "filter (\<lambda>i. i + 8 \<le> n) (map (\<lambda>k. 8 * k) [0..<m]) = map (\<lambda>k. 8 * k) [0..<min m (n div 8)]" for m
  proof (induction m)
    case 0
    show ?case by simp
  next
    case (Suc m)
    show ?case
    proof (cases "8 * m + 8 \<le> n")
      case True
      then have "Suc m \<le> n div 8" by arith
      with Suc True show ?thesis by (simp add: min_def)
    next
      case False
      then have "n div 8 \<le> m" by arith
      with Suc False show ?thesis by (simp add: min_def)
    qed
  qed
  from this[of "(n + 7) div 8"] have
    "filter (\<lambda>i. i + 8 \<le> n) (map (\<lambda>k. 8 * k) [0..<(n + 7) div 8])
       = map (\<lambda>k. 8 * k) [0..<min ((n + 7) div 8) (n div 8)]" .
  moreover have "min ((n + 7) div 8) (n div 8) = n div 8" by arith
  ultimately show ?thesis by (simp add: range_step_def add.commute)
qed

lemma bits_to_bytes_groups:
  "bits_to_bytes ds =
     map (\<lambda>k. of_nat (int_base2 (take 8 (drop (8 * k) ds)))) [0..<length ds div 8]"
  by (simp add: bits_to_bytes_def full_groups list_slice_def comp_def)

lemma length_bits_to_bytes: "length (bits_to_bytes ds) = length ds div 8"
  by (simp add: bits_to_bytes_groups)

lemma length_binary_string: "length (binary_string bs) = 8 * length bs"
  by (induction bs) (simp_all add: binary_string_def length_format_08b)

lemma group_binary_string:
  "k < length bs \<Longrightarrow> take 8 (drop (8 * k) (binary_string bs)) = format_08b (bs ! k)"
proof (induction bs arbitrary: k)
  case Nil
  then show ?case by simp
next
  case (Cons b bs)
  have c: "binary_string (b # bs) = format_08b b @ binary_string bs"
    by (simp add: binary_string_def)
  show ?case
  proof (cases k)
    case 0
    then show ?thesis by (simp add: c length_format_08b)
  next
    case (Suc j)
    with Cons.prems have "j < length bs" by simp
    from Cons.IH[OF this] Suc show ?thesis by (simp add: c length_format_08b)
  qed
qed

lemma bits_to_bytes_binary_string: "bits_to_bytes (binary_string bs) = bs"
proof -
  have "bits_to_bytes (binary_string bs) = map (\<lambda>k. bs ! k) [0..<length bs]"
    unfolding bits_to_bytes_groups length_binary_string
    by (simp add: group_binary_string int_base2_format_08b)
  then show ?thesis by (simp add: map_nth)
qed

lemma binary_string_append: "binary_string (xs @ ys) = binary_string xs @ binary_string ys"
  by (simp add: binary_string_def)

subsection \<open>embed_bits\<close>

lemma length_embed_step: "length (embed_step flat p) = length flat"
  by (cases p) (simp add: embed_step_def)

lemma length_foldl_embed: "length (foldl embed_step flat ps) = length flat"
  by (induction ps arbitrary: flat) (simp_all add: length_embed_step)

lemma length_embed: "length (embed_bits ds flat) = length flat"
  by (simp add: embed_bits_def length_foldl_embed)

lemma nth_foldl_embed:
  "i < length flat \<Longrightarrow>
   foldl embed_step flat (enumerate n ds) ! i =
     (if n \<le> i \<and> i < n + length ds then (flat ! i AND 0xFE) OR of_bool (ds ! (i - n))
      else flat ! i)"
proof (induction ds arbitrary: flat n)
  case Nil
  then show ?case by auto
next
  case (Cons d ds)
  let ?flat1 = "embed_step flat (n, d)"
  have len: "i < length ?flat1" using Cons.prems by (simp add: length_embed_step)
  have step: "?flat1 ! i = (if i = n then (flat ! i AND 0xFE) OR of_bool d else flat ! i)"
    using Cons.prems by (simp add: embed_step_def)
  have "foldl embed_step flat (enumerate n (d # ds)) ! i
          = foldl embed_step ?flat1 (enumerate (Suc n) ds) ! i"
    by simp
  also have "\<dots> = (if Suc n \<le> i \<and> i < Suc n + length ds
                     then (?flat1 ! i AND 0xFE) OR of_bool (ds ! (i - Suc n))
                     else ?flat1 ! i)"
    by (rule Cons.IH[OF len])
  also have "\<dots> = (if n \<le> i \<and> i < n + length (d # ds)
                     then (flat ! i AND 0xFE) OR of_bool ((d # ds) ! (i - n))
                     else flat ! i)"
    unfolding step by (cases "i = n") (auto simp: nth_Cons' )
  finally show ?case .
qed

lemma nth_embed:
  "i < length flat \<Longrightarrow>
   embed_bits ds flat ! i =
     (if i < length ds then (flat ! i AND 0xFE) OR of_bool (ds ! i) else flat ! i)"
  by (simp add: embed_bits_def nth_foldl_embed)

lemma bit0_and_1: "((x::byte) AND 1 = 1) \<longleftrightarrow> bit x 0"
  by (simp add: and_one_eq mod_2_eq_odd bit_0)

lemma lsb_written: "((((x::byte) AND 0xFE) OR of_bool d) AND 1 = 1) \<longleftrightarrow> d"
  by (simp add: bit0_and_1 bit_simps)

lemma high_bits_kept: "0 < n \<Longrightarrow> bit (((x::byte) AND 0xFE) OR of_bool d) n = bit x n"
proof -
  assume n: "0 < n"
  have fe: "(0xFE :: byte) = NOT 1" by simp
  show ?thesis unfolding fe using n by (auto simp add: bit_simps dest: bit_imp_le_length)
qed

lemma lsb_bits_embed:
  assumes "m \<le> length ds" and "length ds \<le> length flat"
  shows "lsb_bits (embed_bits ds flat) 0 m = Inr (take m ds)"
proof -
  have "map (\<lambda>i. embed_bits ds flat ! i AND 1 = 1) [0..<m] = take m ds"
  proof (rule nth_equalityI)
    show "length (map (\<lambda>i. embed_bits ds flat ! i AND 1 = 1) [0..<m]) = length (take m ds)"
      using assms by simp
  next
    fix i assume "i < length (map (\<lambda>i. embed_bits ds flat ! i AND 1 = 1) [0..<m])"
    then have i: "i < m" by simp
    with assms have "i < length flat" "i < length ds" by simp_all
    then show "map (\<lambda>i. embed_bits ds flat ! i AND 1 = 1) [0..<m] ! i = take m ds ! i"
      using i by (simp add: nth_embed lsb_written)
  qed
  then show ?thesis using assms by (simp add: lsb_bits_def length_embed)
qed

lemma lsb_bits_embed_from:
  assumes "a \<le> b" and "b \<le> length ds" and "length ds \<le> length flat"
  shows "lsb_bits (embed_bits ds flat) a b = Inr (list_slice a b ds)"
proof -
  have "map (\<lambda>i. embed_bits ds flat ! i AND 1 = 1) [a..<b] = list_slice a b ds"
  proof (rule nth_equalityI)
    show "length (map (\<lambda>i. embed_bits ds flat ! i AND 1 = 1) [a..<b]) = length (list_slice a b ds)"
      using assms by (simp add: list_slice_def)
  next
    fix i assume "i < length (map (\<lambda>i. embed_bits ds flat ! i AND 1 = 1) [a..<b])"
    then have i: "i < b - a" by simp
    with assms have "a + i < length flat" "a + i < length ds" by simp_all
    then show "map (\<lambda>i. embed_bits ds flat ! i AND 1 = 1) [a..<b] ! i = list_slice a b ds ! i"
      using i assms by (simp add: nth_embed lsb_written list_slice_def)
  qed
  then show ?thesis using assms by (simp add: lsb_bits_def length_embed)
qed

subsection \<open>flatten and regroup\<close>

lemma length_flatten: "length (flatten ps) = 3 * length ps"
  by (induction ps) (auto simp: flatten_def)

lemma regroup_flatten: "regroup (flatten ps) = ps"
  by (induction ps) (auto simp: flatten_def)

lemma flatten_regroup: "length xs = 3 * n \<Longrightarrow> flatten (regroup xs) = xs"
proof (induction xs arbitrary: n rule: regroup.induct)
  case (1 r g b rest)
  then obtain m where "n = Suc m" by (cases n) auto
  with 1 show ?case by (simp add: flatten_def)
qed (simp_all add: flatten_def, arith+)

subsection \<open>little-endian integers\<close>

lemma length_le_bytes: "length (le_bytes k v) = k"
  by (simp add: le_bytes_def)

lemma le_bytes_Suc: "le_bytes (Suc k) v = of_nat v # le_bytes k (v div 256)"
proof -
  have "[0..<Suc k] = 0 # map Suc [0..<k]"
    by (simp add: upt_conv_Cons map_Suc_upt del: upt_Suc)
  then show ?thesis
    by (simp add: le_bytes_def comp_def div_mult2_eq del: upt_Suc)
qed

lemma le_value_Cons: "le_value (b # bs) = unat b + 256 * le_value bs"
  by (simp add: le_value_def)

lemma unat_byte_of_nat: "unat (of_nat v :: byte) = v mod 256"
  by (simp add: unat_of_nat)

lemma le_value_le_bytes: "le_value (le_bytes k v) = v mod 256 ^ k"
proof (induction k arbitrary: v)
  case 0
  show ?case by (simp add: le_bytes_def le_value_def)
next
  case (Suc k)
  have "le_value (le_bytes (Suc k) v) = v mod 256 + 256 * (v div 256 mod 256 ^ k)"
    by (simp add: le_bytes_Suc le_value_Cons Suc unat_byte_of_nat)
  also have "\<dots> = v mod 256 ^ Suc k"
    by (simp add: mod_mult2_eq)
  finally show ?case .
qed

lemma struct_unpack_le_bytes:
  "v < 256 ^ k \<Longrightarrow> struct_unpack_le k (le_bytes k v) = Inr v"
  by (simp add: struct_unpack_le_def length_le_bytes le_value_le_bytes)

subsection \<open>UTF-8\<close>

lemma utf8_char_bytes: "scalar_value c \<Longrightarrow> \<forall>b \<in> set (utf8_char c). b < 256"
  by (auto simp: utf8_char_def scalar_value_def)

lemma utf8_scan_2:
  assumes "0xC2 \<le> b0" "b0 < 0xE0" "continuation b1"
  shows "utf8_scan (b0 # b1 # rest)
           = map_option ((#) ((b0 - 0xC0) * 0x40 + (b1 - 0x80))) (utf8_scan rest)"
  using assms by simp

lemma utf8_scan_3:
  assumes "0xE0 \<le> b0" "b0 < 0xF0" "continuation b1" "continuation b2"
    and "c = (b0 - 0xE0) * 0x1000 + (b1 - 0x80) * 0x40 + (b2 - 0x80)"
    and "0x800 \<le> c" "scalar_value c"
  shows "utf8_scan (b0 # b1 # b2 # rest) = map_option ((#) c) (utf8_scan rest)"
  using assms by simp

lemma utf8_scan_4:
  assumes "0xF0 \<le> b0" "b0 < 0xF5" "continuation b1" "continuation b2" "continuation b3"
    and "c = (b0 - 0xF0) * 0x40000 + (b1 - 0x80) * 0x1000 + (b2 - 0x80) * 0x40 + (b3 - 0x80)"
    and "0x10000 \<le> c" "c < 0x110000"
  shows "utf8_scan (b0 # b1 # b2 # b3 # rest) = map_option ((#) c) (utf8_scan rest)"
  using assms by simp

lemma split_12_bits: "(c::nat) mod 0x1000 = c div 0x40 mod 0x40 * 0x40 + c mod 0x40"
  using mod_mult2_eq[of c "0x40" "0x40"] by simp

lemma split_18_bits:
  "(c::nat) mod 0x40000 = c div 0x1000 mod 0x40 * 0x1000 + c div 0x40 mod 0x40 * 0x40 + c mod 0x40"
  using mod_mult2_eq[of c "0x1000" "0x40"] by (simp add: split_12_bits)

lemma join_3: "(c::nat) div 0x1000 * 0x1000 + c div 0x40 mod 0x40 * 0x40 + c mod 0x40 = c"
  using div_mult_mod_eq[of c "0x1000"] by (simp only: split_12_bits add.assoc)

lemma join_4:
  "(c::nat) div 0x40000 * 0x40000 + c div 0x1000 mod 0x40 * 0x1000
     + c div 0x40 mod 0x40 * 0x40 + c mod 0x40 = c"
  using div_mult_mod_eq[of c "0x40000"] by (simp only: split_18_bits add.assoc)

lemma continuation_low: "continuation (0x80 + n mod 0x40)"
proof -
  have "n mod 0x40 < 0x40" by simp
  then show ?thesis unfolding continuation_def by linarith
qed

lemma utf8_scan_char:
  assumes "scalar_value c"
  shows "utf8_scan (utf8_char c @ rest) = map_option ((#) c) (utf8_scan rest)"
proof -
  from assms have top: "c < 0x110000"
    by (auto simp: scalar_value_def)
  then consider "c < 0x80" | "0x80 \<le> c" "c < 0x800" | "0x800 \<le> c" "c < 0x10000"
    | "0x10000 \<le> c" "c < 0x110000"
    by linarith
  then show ?thesis
  proof cases
    case 1
    then show ?thesis by (simp add: utf8_char_def)
  next
    case 2
    then have enc: "utf8_char c = [0xC0 + c div 0x40, 0x80 + c mod 0x40]"
      by (simp add: utf8_char_def)
    from 2 have "0x80 div 0x40 \<le> c div 0x40" "c div 0x40 < 0x20"
      by (simp_all only: div_le_mono less_mult_imp_div_less)
    then have lead: "0xC2 \<le> 0xC0 + c div 0x40" "0xC0 + c div 0x40 < 0xE0" by simp_all
    have c: "(0xC0 + c div 0x40 - 0xC0) * 0x40 + (0x80 + c mod 0x40 - 0x80) = c"
      by (simp only: add_diff_cancel_left' div_mult_mod_eq)
    show ?thesis
      unfolding enc using utf8_scan_2[OF lead continuation_low, of c rest]
      by (simp only: c append_Cons append_Nil)
  next
    case 3
    then have enc: "utf8_char c =
        [0xE0 + c div 0x1000, 0x80 + c div 0x40 mod 0x40, 0x80 + c mod 0x40]"
      by (simp add: utf8_char_def)
    from 3 have "c div 0x1000 < 0x10"
      by (simp only: less_mult_imp_div_less)
    then have lead: "0xE0 \<le> 0xE0 + c div 0x1000" "0xE0 + c div 0x1000 < 0xF0" by simp_all
    have c: "c = (0xE0 + c div 0x1000 - 0xE0) * 0x1000
               + (0x80 + c div 0x40 mod 0x40 - 0x80) * 0x40 + (0x80 + c mod 0x40 - 0x80)"
      by (simp only: add_diff_cancel_left' join_3)
    show ?thesis
      unfolding enc
      using utf8_scan_3[OF lead continuation_low continuation_low c 3(1) assms, of rest]
      by (simp only: append_Cons append_Nil)
  next
    case 4
    then have enc: "utf8_char c =
        [0xF0 + c div 0x40000, 0x80 + c div 0x1000 mod 0x40,
         0x80 + c div 0x40 mod 0x40, 0x80 + c mod 0x40]"
      by (simp add: utf8_char_def)
    from 4 have "c div 0x40000 < 5"
      by (simp only: less_mult_imp_div_less)
    then have lead: "0xF0 \<le> 0xF0 + c div 0x40000" "0xF0 + c div 0x40000 < 0xF5" by simp_all
    have c: "c = (0xF0 + c div 0x40000 - 0xF0) * 0x40000
               + (0x80 + c div 0x1000 mod 0x40 - 0x80) * 0x1000
               + (0x80 + c div 0x40 mod 0x40 - 0x80) * 0x40 + (0x80 + c mod 0x40 - 0x80)"
      by (simp only: add_diff_cancel_left' join_4)
    show ?thesis
      unfolding enc
      using utf8_scan_4[OF lead continuation_low continuation_low continuation_low c 4, of rest]
      by (simp only: append_Cons append_Nil)
  qed
qed

lemma utf8_scan_concat:
  "list_all scalar_value s \<Longrightarrow> utf8_scan (concat (map utf8_char s)) = Some s"
  by (induction s) (simp_all add: utf8_scan_char)

lemma unat_of_nat_bytes:
  "\<forall>b \<in> set ns. b < 256 \<Longrightarrow> map unat (map of_nat ns :: bytes) = ns"
  by (induction ns) (simp_all add: unat_byte_of_nat)

lemma utf8_decode_encode:
  assumes "utf8_encode s = Inr bs"
  shows "utf8_decode bs = Inr s"
proof -
  from assms have v: "list_all scalar_value s"
    and bs: "bs = map of_nat (concat (map utf8_char s))"
    by (auto simp: utf8_encode_def split: if_splits)
  have "\<forall>b \<in> set (concat (map utf8_char s)). b < 256"
    using v utf8_char_bytes by (auto simp: list_all_iff)
  then have "map unat bs = concat (map utf8_char s)"
    unfolding bs by (rule unat_of_nat_bytes)
  then show ?thesis using v by (simp add: utf8_decode_def utf8_scan_concat)
qed

lemma utf8_encode_valid: "list_all scalar_value s \<Longrightarrow> \<exists>bs. utf8_encode s = Inr bs"
  by (simp add: utf8_encode_def)

lemma utf8_encode_SIGNATURE: "utf8_encode SIGNATURE = Inr [0x43, 0x45, 0x4C, 0x46, 0x49, 0x45]"
  by (simp add: utf8_encode_def SIGNATURE_def str_def scalar_value_def utf8_char_def)

lemma utf8_decode_signature: "utf8_decode [0x43, 0x45, 0x4C, 0x46, 0x49, 0x45] = Inr SIGNATURE"
  using utf8_encode_SIGNATURE by (rule utf8_decode_encode)

subsection \<open>slices of a packed header\<close>

lemma slice_head: "length a = n \<Longrightarrow> list_slice 0 n (a @ c) = a"
  by (simp add: list_slice_def)

lemma slice_mid: "length a = i \<Longrightarrow> j = i + length b \<Longrightarrow> list_slice i j (a @ b @ c) = b"
  by (simp add: list_slice_def)

lemma length_slice: "b \<le> length xs \<Longrightarrow> length (list_slice a b xs) = b - a"
  by (simp add: list_slice_def)

lemma pack_s_exact: "length bs = k \<Longrightarrow> pack_s k bs = bs"
  by (simp add: pack_s_def)

lemma length_pack_s: "length (pack_s k bs) = k"
  by (simp add: pack_s_def)

lemma header_layout_slices:
  assumes "length s = 6" "length v = 4" "length k = 32" "length t = 16" "length n = 8"
    "length d = 8"
  shows "length (header_layout s v k t n d) = 74"
    and "list_slice 0 6 (header_layout s v k t n d) = s"
    and "list_slice 6 10 (header_layout s v k t n d) = v"
    and "list_slice 10 42 (header_layout s v k t n d) = k"
    and "list_slice 42 58 (header_layout s v k t n d) = t"
    and "list_slice 58 66 (header_layout s v k t n d) = n"
    and "list_slice 66 74 (header_layout s v k t n d) = d"
  using assms by (simp_all add: header_layout_def list_slice_def)

lemma struct_pack_header_layout:
  assumes "version < 2 ^ 32" "data_length < 2 ^ 64"
  shows "struct_pack_header s version key salt data_length d =
           Inr (header_layout (pack_s 6 s) (le_bytes 4 version) (pack_s 32 key) (pack_s 16 salt)
                  (le_bytes 8 data_length) (pack_s 8 d))"
  using assms by (simp add: struct_pack_header_def header_layout_def)

lemma struct_pack_header_length:
  "struct_pack_header s version key salt data_length d = Inr h \<Longrightarrow> length h = 74"
  by (auto simp: struct_pack_header_def length_pack_s length_le_bytes split: if_splits)

subsection \<open>decode, with its reads written out\<close>

lemma decode_try_unfold:
  "decode_try lib flat_img header_bytes =
     (case utf8_decode (list_slice 0 6 header_bytes) of
        Inl e \<Rightarrow> Inl e
      | Inr signature \<Rightarrow>
          if signature \<noteq> SIGNATURE then Inr None
          else
            (case struct_unpack_le 4 (list_slice 6 10 header_bytes) of
               Inl e \<Rightarrow> Inl e
             | Inr version \<Rightarrow>
                 (let encryption_key = list_slice 10 42 header_bytes;
                      salt = list_slice 42 58 header_bytes
                  in case struct_unpack_le 8 (list_slice 58 66 header_bytes) of
                       Inl e \<Rightarrow> Inl e
                     | Inr data_length \<Rightarrow>
                         (let max_data = int (length flat_img) - int (HEADER_SIZE * 8)
                          in if int data_length > max_data \<or> data_length > 10000000
                             then Inr None
                             else
                               (let data_start = HEADER_SIZE * 8
                                in case lsb_bits flat_img data_start
                                          (data_start + data_length * 8) of
                                     Inl e \<Rightarrow> Inl e
                                   | Inr data_bits \<Rightarrow>
                                       (let encrypted_data = bits_to_bytes data_bits
                                        in case decrypt_message lib encryption_key
                                                  encrypted_data of
                                             Inl e \<Rightarrow> Inl e
                                           | Inr message \<Rightarrow> Inr (Some message)))))))"
  by (simp add: decode_try_def read_header_def extract_data_def Let_def split: sum.splits)

lemma decode_image_unfold:
  "decode_image lib img =
     (let flat_img = flatten (pixels img)
      in case lsb_bits flat_img 0 (HEADER_SIZE * 8) of
           Inl e \<Rightarrow> Inl e
         | Inr header_bits \<Rightarrow>
             (let header_bytes = bits_to_bytes header_bits
              in case decode_try lib flat_img header_bytes of
                   Inl e \<Rightarrow> Inr None
                 | Inr result \<Rightarrow> Inr result))"
  by (simp add: decode_image_def extract_header_def Let_def split: sum.splits)

subsection \<open>the try block on a header with the signature\<close>

lemma lsb_bits_length: "lsb_bits flat a b = Inr ds \<Longrightarrow> length ds = b - a"
  by (auto simp: lsb_bits_def split: if_splits)

lemma decode_try_signed:
  assumes "length hb = 74" and "utf8_decode (list_slice 0 6 hb) = Inr SIGNATURE"
  shows "decode_try lib flat hb =
           (let n = le_value (list_slice 58 66 hb)
            in if int n > int (length flat) - 592 \<or> n > 10000000 then Inr None
               else case lsb_bits flat 592 (592 + n * 8) of
                      Inl e \<Rightarrow> Inl e
                    | Inr ds \<Rightarrow>
                        (case decrypt_message lib (list_slice 10 42 hb) (bits_to_bytes ds) of
                           Inl e \<Rightarrow> Inl e
                         | Inr m \<Rightarrow> Inr (Some m)))"
  using assms
  by (simp add: decode_try_unfold struct_unpack_le_def length_slice HEADER_SIZE_def Let_def
      split: sum.splits)

lemma decode_image_embedded:
  assumes len: "length hb = 74"
    and sig: "utf8_decode (list_slice 0 6 hb) = Inr SIGNATURE"
    and n: "le_value (list_slice 58 66 hb) = length ct"
    and fit: "8 * (74 + length ct) \<le> length flat"
    and img: "flatten (pixels img) = embed_bits (binary_string (hb @ ct)) flat"
  shows "decode_image lib img =
           (if length ct > 10000000 then Inr None
            else case decrypt_message lib (list_slice 10 42 hb) ct of
                   Inl e \<Rightarrow> Inr None
                 | Inr m \<Rightarrow> Inr (Some m))"
proof -
  let ?ds = "binary_string (hb @ ct)"
  let ?flat' = "embed_bits ?ds flat"
  have lds: "length ?ds = 8 * (74 + length ct)"
    by (simp add: length_binary_string len)
  have "lsb_bits ?flat' 0 592 = Inr (take 592 ?ds)"
    by (rule lsb_bits_embed) (use lds fit in simp_all)
  moreover have "take 592 ?ds = binary_string hb"
    by (simp add: binary_string_append length_binary_string len)
  ultimately have hdr: "lsb_bits ?flat' 0 592 = Inr (binary_string hb)" by simp
  have "lsb_bits ?flat' 592 (592 + length ct * 8) = Inr (list_slice 592 (592 + length ct * 8) ?ds)"
    by (rule lsb_bits_embed_from) (use lds fit in simp_all)
  moreover have "list_slice 592 (592 + length ct * 8) ?ds = binary_string ct"
    by (simp add: list_slice_def binary_string_append length_binary_string len)
  ultimately have dat: "lsb_bits ?flat' 592 (592 + length ct * 8) = Inr (binary_string ct)"
    by simp
  have small: "\<not> int (length ct) > int (length ?flat') - 592"
    using fit by (simp add: length_embed)
  show ?thesis
    unfolding decode_image_unfold img Let_def HEADER_SIZE_def
    using small dat
    by (simp add: hdr bits_to_bytes_binary_string decode_try_signed[OF len sig] n
        split: sum.splits)
qed

subsection \<open>the framed payload\<close>

lemma length_token_bytes: "length (token_bytes src n) = n"
  by (simp add: token_bytes_def)

lemma length_DELIMITER: "length DELIMITER = 8"
  by (simp add: DELIMITER_def)

lemma length_signature_bytes: "length signature_bytes = 6"
  by (simp add: signature_bytes_def)

lemma pack_header_eq:
  assumes "n < 2 ^ 64"
  shows "pack_header rnd n = Inr (framed_header rnd n)"
  using assms
  by (simp add: pack_header_def framed_header_def utf8_encode_SIGNATURE[folded signature_bytes_def] VERSION_def
      struct_pack_header_layout pack_s_exact length_token_bytes length_DELIMITER
      length_signature_bytes)

lemma header_layout_facts:
  fixes rnd :: "'r entropy" and n :: nat
  defines "hb \<equiv> framed_header rnd n"
  assumes "n < 2 ^ 64"
  shows "length hb = 74"
    and "utf8_decode (list_slice 0 6 hb) = Inr SIGNATURE"
    and "le_value (list_slice 58 66 hb) = n"
    and "list_slice 10 42 hb = token_bytes (key_source rnd) 32"
proof -
  note sl = header_layout_slices[OF length_signature_bytes length_le_bytes length_token_bytes
      length_token_bytes length_le_bytes length_DELIMITER]
  show "length hb = 74" unfolding hb_def framed_header_def by (rule sl)
  show "utf8_decode (list_slice 0 6 hb) = Inr SIGNATURE"
    unfolding hb_def framed_header_def sl by (simp add: signature_bytes_def utf8_decode_signature)
  show "le_value (list_slice 58 66 hb) = n"
    unfolding hb_def framed_header_def sl using assms by (simp add: le_value_le_bytes)
  show "list_slice 10 42 hb = token_bytes (key_source rnd) 32"
    unfolding hb_def framed_header_def by (rule sl)
qed

lemma data_to_hide_eq:
  assumes "encrypt_message lib rnd message link = Inr ct" and "length ct < 2 ^ 64"
  shows "data_to_hide lib rnd message link = Inr (framed_header rnd (length ct) @ ct)"
  using assms by (simp add: data_to_hide_def pack_header_eq)

lemma data_to_hide_length:
  assumes "data_to_hide lib rnd message link = Inr data"
  shows "\<exists>hb ct. data = hb @ ct \<and> length hb = 74
           \<and> encrypt_message lib rnd message link = Inr ct"
proof -
  from assms obtain ct hb where ct: "encrypt_message lib rnd message link = Inr ct"
    and hb: "pack_header rnd (length ct) = Inr hb" and data: "data = hb @ ct"
    by (auto simp: data_to_hide_def split: sum.splits)
  from hb have "length ct < 2 ^ 64"
    by (auto simp: pack_header_def struct_pack_header_def utf8_encode_SIGNATURE Let_def
        split: if_splits)
  from pack_header_eq[OF this, of rnd] hb header_layout_facts(1)[OF this, of rnd]
  have "length hb = 74" by simp
  with ct data show ?thesis by blast
qed

lemma decrypt_message_encrypt:
  assumes "encrypt_message lib rnd message link = Inr ct" and "library_inverts lib"
  shows "decrypt_message lib (token_bytes (key_source rnd) 32) ct
           = Inr (full_message message link)"
proof -
  from assms(1) obtain mb where mb: "utf8_encode (full_message message link) = Inr mb"
    and ct: "ct = fernet_encrypt lib (urlsafe_b64encode lib (token_bytes (key_source rnd) 32))
                    (fernet_random rnd) (zlib_compress lib mb)"
    by (auto simp: encrypt_message_def Let_def split: sum.splits)
  from assms(2) show ?thesis
    unfolding ct
    by (simp add: decrypt_message_def library_inverts_def length_token_bytes
        utf8_decode_encode[OF mb])
qed

lemma encrypt_message_total:
  "list_all scalar_value message \<Longrightarrow> list_all scalar_value link \<Longrightarrow>
   \<exists>ct. encrypt_message lib rnd message link = Inr ct"
  by (simp add: encrypt_message_def full_message_def utf8_encode_def str_def scalar_value_def
      Let_def)

subsection \<open>what encode does to the file system\<close>

lemma length_pixels_watermarked:
  "length (pixels (watermarked lib img wm style)) = length (pixels img)"
  by (simp add: watermarked_def add_watermark_def split: option.splits)

lemma encode_written:
  assumes "fs input_path = Some (ImageFile img0)"
    and "data_to_hide lib rnd message (case link_arg of None \<Rightarrow> [] | Some l \<Rightarrow> l) = Inr data"
    and "8 * length data \<le> width img0 * height img0 * 3"
  shows "encode lib rnd fs input_path output_path message link_arg wm style =
           (fs(png_path lib output_path \<mapsto> ImageFile
                 \<lparr>width = width img0, height = height img0,
                  pixels = regroup (embed_bits (binary_string data)
                             (flatten (pixels (watermarked lib img0 wm style))))\<rparr>),
            Inr True)"
  using assms by (simp add: encode_def Let_def length_binary_string)

lemma encode_too_large:
  assumes "fs input_path = Some (ImageFile img0)"
    and "data_to_hide lib rnd message (case link_arg of None \<Rightarrow> [] | Some l \<Rightarrow> l) = Inr data"
    and "8 * length data > width img0 * height img0 * 3"
  shows "encode lib rnd fs input_path output_path message link_arg wm style =
           (fs, Inl (ValueError (8 * length data) (width img0 * height img0 * 3)))"
  using assms by (simp add: encode_def Let_def length_binary_string)

lemma encode_error_keeps_fs:
  "snd (encode lib rnd fs input_path output_path message link_arg wm style) = Inl e \<Longrightarrow>
   fst (encode lib rnd fs input_path output_path message link_arg wm style) = fs"
  by (auto simp: encode_def Let_def split: option.splits fs_entry.splits sum.splits if_splits)

lemma decode_written:
  assumes inp: "fs input_path = Some (ImageFile img0)"
    and wf: "length (pixels img0) = width img0 * height img0"
    and ct: "encrypt_message lib rnd message (case link_arg of None \<Rightarrow> [] | Some l \<Rightarrow> l) = Inr ct"
    and fits: "8 * (74 + length ct) \<le> width img0 * height img0 * 3"
    and small: "length ct < 2 ^ 64"
  shows "encode lib rnd fs input_path output_path message link_arg wm style
           = (fs', r) \<Longrightarrow>
         r = Inr True \<and>
         decode lib fs' (png_path lib output_path) =
           (if length ct > 10000000 then Inr None
            else case decrypt_message lib (token_bytes (key_source rnd) 32) ct of
                   Inl e \<Rightarrow> Inr None
                 | Inr m \<Rightarrow> Inr (Some m))"
proof -
  let ?link = "case link_arg of None \<Rightarrow> [] | Some l \<Rightarrow> l"
  let ?hb = "framed_header rnd (length ct)"
  let ?flat = "flatten (pixels (watermarked lib img0 wm style))"
  let ?img = "\<lparr>width = width img0, height = height img0,
               pixels = regroup (embed_bits (binary_string (?hb @ ct)) ?flat)\<rparr>"
  assume enc: "encode lib rnd fs input_path output_path message link_arg wm style = (fs', r)"
  note hf = header_layout_facts[OF small, of rnd]
  have data: "data_to_hide lib rnd message ?link = Inr (?hb @ ct)"
    by (rule data_to_hide_eq[OF ct small])
  have lflat: "length ?flat = 3 * (width img0 * height img0)"
    by (simp add: length_flatten length_pixels_watermarked wf)
  have fits': "8 * length (?hb @ ct) \<le> width img0 * height img0 * 3"
    using fits hf(1) by simp
  have "encode lib rnd fs input_path output_path message link_arg wm style =
          (fs(png_path lib output_path \<mapsto> ImageFile ?img), Inr True)"
    using inp data fits' by (rule encode_written)
  with enc have fs': "fs' = fs(png_path lib output_path \<mapsto> ImageFile ?img)" and r: "r = Inr True"
    by simp_all
  have "flatten (pixels ?img) = embed_bits (binary_string (?hb @ ct)) ?flat"
    by (simp add: flatten_regroup[where n = "width img0 * height img0"] length_embed lflat)
  moreover have "8 * (74 + length ct) \<le> length ?flat"
    using fits lflat by simp
  ultimately have "decode_image lib ?img =
           (if length ct > 10000000 then Inr None
            else case decrypt_message lib (list_slice 10 42 ?hb) ct of
                   Inl e \<Rightarrow> Inr None
                 | Inr m \<Rightarrow> Inr (Some m))"
    using decode_image_embedded[OF hf(1) hf(2) hf(3)] by blast
  then show ?thesis
    unfolding fs' r by (simp add: decode_def hf(4))
qed

subsection \<open>the small instance of the library\<close>

lemma zero_key: "token_bytes (key_source zero_entropy) n = replicate n 0"
  "token_bytes (salt_source zero_entropy) n = replicate n 0"
  by (simp_all add: token_bytes_def zero_entropy_def map_replicate_const)

lemma plain_encrypt_h:
  "encrypt_message plain_library zero_entropy (str ''h'') [] = Inr (replicate 32 0 @ [0x78, 0x68])"
  by (simp add: encrypt_message_def full_message_def utf8_encode_def str_def scalar_value_def
      utf8_char_def plain_library_def zero_key)

lemma plain_decrypt_h:
  "decrypt_message plain_library (replicate 32 0) (replicate 32 0 @ [0x78, 0x68])
     = Inr (str ''h'')"
  by (simp add: decrypt_message_def plain_library_def utf8_decode_def str_def)

section \<open>Properties of the module\<close>

subsection \<open>Rasters too short for a header\<close>

lemma decode_image_short:
  "length (pixels img) < 198 \<Longrightarrow> decode_image lib img = Inl IndexError"
  by (simp add: decode_image_unfold lsb_bits_def length_flatten HEADER_SIZE_def)

lemma decode_image_long:
  "198 \<le> length (pixels img) \<Longrightarrow> \<exists>r. decode_image lib img = Inr r"
  by (simp add: decode_image_unfold lsb_bits_def length_flatten HEADER_SIZE_def Let_def
      split: sum.splits)

text \<open>
  Claim C3 says that \<^verbatim>\<open>decode\<close> never raises for a reason of content, also on a
  raster too short to hold the 74-byte header. The header digits are read before the
  \<^verbatim>\<open>try\<close> block, so on an image of 10 by 10 pixels (300 channel values, fewer than
  the 592 the header needs) the \<^verbatim>\<open>IndexError\<close> of \<^verbatim>\<open>flat_img[i]\<close> leaves
  \<^verbatim>\<open>decode\<close>: it does not return \<open>None\<close>.
\<close>

theorem decode_small_image_raises:
  "decode plain_library [str ''icon.png'' \<mapsto> ImageFile (blank_image 10 10)] (str ''icon.png'')
     = Inl IndexError"
  by (simp add: decode_def decode_image_short blank_image_def)

subsection \<open>verify_image\<close>

text \<open>
  Claim C10: \<^verbatim>\<open>verify_image\<close> raises for no path. Whatever the path names (nothing,
  a file that is not an image, an image with or without a hidden message), it returns a
  boolean, and the boolean is \<open>True\<close> exactly when \<^verbatim>\<open>decode\<close> returns a message
  without raising.
\<close>

theorem verify_image_returns_bool:
  "\<exists>b. verify_image lib fs image_path = Inr b
        \<and> (b \<longleftrightarrow> (\<exists>m. decode lib fs image_path = Inr (Some m)))"
  by (auto simp: verify_image_def split: sum.splits)

theorem verify_image_returns_bool_witness:
  "verify_image plain_library Map.empty (str ''missing.png'') = Inr False
   \<and> decode plain_library Map.empty (str ''missing.png'') = Inl FileNotFoundError"
  using verify_image_returns_bool[of plain_library Map.empty "str ''missing.png''"]
  by (auto simp: decode_def)

subsection \<open>The header\<close>

lemma read_header_layout:
  assumes "length s = 6" "length v = 4" "length k = 32" "length t = 16" "length n = 8"
    "length d = 8"
  shows "read_header (header_layout s v k t n d) = Inr (le_value v, k, t, le_value n)"
  unfolding read_header_def header_layout_slices[OF assms]
  using assms by (simp add: struct_unpack_le_def)

text \<open>
  Claim C7: the header that \<^verbatim>\<open>encode\<close> packs (lines 213 to 223) for encrypted data
  of a length below \<open>2^64\<close> has exactly 74 bytes: the signature \<^verbatim>\<open>CELFIE\<close> at
  offsets 0 to 6, the version as 4 little-endian bytes at 6 to 10, the 32-byte key at 10 to
  42, the 16-byte salt at 42 to 58, the length as 8 little-endian bytes at 58 to 66 and the
  delimiter at 66 to 74; and the reads of \<^verbatim>\<open>decode\<close> (lines 311 to 322) give the
  signature, the version, the key, the salt and the length back. The same holds of the
  packing at any version below \<open>2^32\<close>, any key of 32 bytes and any salt of 16 bytes.
\<close>

theorem header_pack_unpack:
  assumes "version < 2 ^ 32" and "length key = 32" and "length salt = 16"
    and "data_length < 2 ^ 64"
  shows "utf8_encode SIGNATURE = Inr signature_bytes
       \<and> le_bytes 4 VERSION = [1, 0, 0, 0]
       \<and> pack_header rnd data_length =
           struct_pack_header signature_bytes VERSION (token_bytes (key_source rnd) 32)
             (token_bytes (salt_source rnd) 16) data_length DELIMITER
       \<and> (\<exists>h. pack_header rnd data_length = Inr h
           \<and> length h = 74
           \<and> list_slice 0 6 h = signature_bytes
           \<and> list_slice 6 10 h = le_bytes 4 VERSION
           \<and> list_slice 10 42 h = token_bytes (key_source rnd) 32
           \<and> list_slice 42 58 h = token_bytes (salt_source rnd) 16
           \<and> list_slice 58 66 h = le_bytes 8 data_length
           \<and> list_slice 66 74 h = DELIMITER
           \<and> utf8_decode (list_slice 0 6 h) = Inr SIGNATURE
           \<and> read_header h =
               Inr (VERSION, token_bytes (key_source rnd) 32,
                    token_bytes (salt_source rnd) 16, data_length))
       \<and> (\<exists>h. struct_pack_header signature_bytes version key salt data_length DELIMITER = Inr h
           \<and> length h = 74
           \<and> list_slice 0 6 h = signature_bytes
           \<and> list_slice 6 10 h = le_bytes 4 version
           \<and> list_slice 10 42 h = key
           \<and> list_slice 42 58 h = salt
           \<and> list_slice 58 66 h = le_bytes 8 data_length
           \<and> list_slice 66 74 h = DELIMITER
           \<and> utf8_decode (list_slice 0 6 h) = Inr SIGNATURE
           \<and> read_header h = Inr (version, key, salt, data_length))"
proof -
  have general: "\<exists>h. struct_pack_header signature_bytes v k t data_length DELIMITER = Inr h
           \<and> length h = 74
           \<and> list_slice 0 6 h = signature_bytes
           \<and> list_slice 6 10 h = le_bytes 4 v
           \<and> list_slice 10 42 h = k
           \<and> list_slice 42 58 h = t
           \<and> list_slice 58 66 h = le_bytes 8 data_length
           \<and> list_slice 66 74 h = DELIMITER
           \<and> utf8_decode (list_slice 0 6 h) = Inr SIGNATURE
           \<and> read_header h = Inr (v, k, t, data_length)"
    if v: "v < 2 ^ 32" and k: "length k = 32" and t: "length t = 16" for v k t
  proof -
    let ?h = "header_layout signature_bytes (le_bytes 4 v) k t (le_bytes 8 data_length) DELIMITER"
    note sl = header_layout_slices[OF length_signature_bytes length_le_bytes k t
        length_le_bytes length_DELIMITER, of v data_length]
    have "struct_pack_header signature_bytes v k t data_length DELIMITER = Inr ?h"
      using v k t assms(4)
      by (simp add: struct_pack_header_layout pack_s_exact length_signature_bytes
          length_DELIMITER)
    moreover have "utf8_decode (list_slice 0 6 ?h) = Inr SIGNATURE"
      unfolding sl by (simp add: signature_bytes_def utf8_decode_signature)
    moreover have "read_header ?h = Inr (v, k, t, data_length)"
      using read_header_layout[OF length_signature_bytes length_le_bytes k t length_le_bytes
          length_DELIMITER, of v data_length] v assms(4)
      by (simp add: le_value_le_bytes)
    ultimately show ?thesis using sl by blast
  qed
  have sig: "utf8_encode SIGNATURE = Inr signature_bytes"
    by (simp add: utf8_encode_SIGNATURE signature_bytes_def)
  have "le_bytes (Suc (Suc (Suc (Suc 0)))) VERSION = [1, 0, 0, 0]"
    by (simp add: le_bytes_Suc VERSION_def le_bytes_def)
  moreover have "(4::nat) = Suc (Suc (Suc (Suc 0)))" by simp
  ultimately have one: "le_bytes 4 VERSION = [1, 0, 0, 0]"
    by (simp only:)
  have code: "pack_header rnd data_length =
           struct_pack_header signature_bytes VERSION (token_bytes (key_source rnd) 32)
             (token_bytes (salt_source rnd) 16) data_length DELIMITER"
    by (simp add: pack_header_def sig)
  have v1: "VERSION < 2 ^ 32" by (simp add: VERSION_def)
  from general[OF v1 length_token_bytes length_token_bytes, of "key_source rnd" "salt_source rnd"]
  have packed: "\<exists>h. pack_header rnd data_length = Inr h
           \<and> length h = 74
           \<and> list_slice 0 6 h = signature_bytes
           \<and> list_slice 6 10 h = le_bytes 4 VERSION
           \<and> list_slice 10 42 h = token_bytes (key_source rnd) 32
           \<and> list_slice 42 58 h = token_bytes (salt_source rnd) 16
           \<and> list_slice 58 66 h = le_bytes 8 data_length
           \<and> list_slice 66 74 h = DELIMITER
           \<and> utf8_decode (list_slice 0 6 h) = Inr SIGNATURE
           \<and> read_header h =
               Inr (VERSION, token_bytes (key_source rnd) 32,
                    token_bytes (salt_source rnd) 16, data_length)"
    unfolding code .
  from sig one code packed general[OF assms(1) assms(2) assms(3)] show ?thesis by blast
qed

theorem header_pack_unpack_witness:
  "(\<exists>h. pack_header zero_entropy 1000 = Inr h
       \<and> length h = 74
       \<and> read_header h =
           Inr (VERSION, token_bytes (key_source zero_entropy) 32,
                token_bytes (salt_source zero_entropy) 16, 1000))
   \<and> (\<exists>h. struct_pack_header signature_bytes 7 (replicate 32 0xAB) (replicate 16 0xCD) 1000
            DELIMITER = Inr h
       \<and> length h = 74
       \<and> read_header h = Inr (7, replicate 32 0xAB, replicate 16 0xCD, 1000))"
proof -
  have a: "(7::nat) < 2 ^ 32" "length (replicate 32 (0xAB::byte)) = 32"
    "length (replicate 16 (0xCD::byte)) = 16" "(1000::nat) < 2 ^ 64"
    by simp_all
  note t = header_pack_unpack[OF a, of zero_entropy]
  from t have "\<exists>h. pack_header zero_entropy 1000 = Inr h
       \<and> length h = 74
       \<and> read_header h =
           Inr (VERSION, token_bytes (key_source zero_entropy) 32,
                token_bytes (salt_source zero_entropy) 16, 1000)"
    by blast
  moreover from t
  have "\<exists>h. struct_pack_header signature_bytes 7 (replicate 32 0xAB) (replicate 16 0xCD) 1000
            DELIMITER = Inr h
       \<and> length h = 74
       \<and> read_header h = Inr (7, replicate 32 0xAB, replicate 16 0xCD, 1000)"
    by blast
  ultimately show ?thesis by (rule conjI)
qed

subsection \<open>Embedding\<close>

lemma unat_half: "unat (drop_bit 1 (y::byte)) = unat y div 2"
  by (simp add: drop_bit_eq_div unat_div)

lemma half_kept: "drop_bit 1 (((x::byte) AND 0xFE) OR of_bool d) = drop_bit 1 x"
  by (rule bit_eqI)
    (simp only: bit_drop_bit_eq comp_apply high_bits_kept add_gr_0 zero_less_one simp_thms)

lemma lsb_write_close:
  "unat (((x::byte) AND 0xFE) OR of_bool d) \<le> unat x + 1
   \<and> unat x \<le> unat (((x::byte) AND 0xFE) OR of_bool d) + 1"
proof -
  have "unat (((x::byte) AND 0xFE) OR of_bool d) div 2 = unat x div 2"
    using half_kept[of x d] unat_half by metis
  then show ?thesis by linarith
qed

text \<open>
  Claim C5: embedding the digits of \<open>data\<close> (the header followed by the encrypted data)
  keeps the length of the raster, keeps bits 1 to 7 of every entry, moves no entry by more
  than 1, and leaves every entry at index \<open>8 * length data\<close> or beyond as it was.
\<close>

theorem embedding_changes_lsb_only:
  "length (embed_bits (binary_string data) flat_img) = length flat_img \<and>
   (\<forall>i<length flat_img.
      (\<forall>n. 0 < n \<longrightarrow>
         bit (embed_bits (binary_string data) flat_img ! i) n = bit (flat_img ! i) n)
      \<and> unat (embed_bits (binary_string data) flat_img ! i) \<le> unat (flat_img ! i) + 1
      \<and> unat (flat_img ! i) \<le> unat (embed_bits (binary_string data) flat_img ! i) + 1
      \<and> (length data * 8 \<le> i \<longrightarrow>
            embed_bits (binary_string data) flat_img ! i = flat_img ! i))"
proof -
  let ?new = "embed_bits (binary_string data) flat_img"
  have entry: "(\<forall>n. 0 < n \<longrightarrow> bit (?new ! i) n = bit (flat_img ! i) n)
      \<and> unat (?new ! i) \<le> unat (flat_img ! i) + 1
      \<and> unat (flat_img ! i) \<le> unat (?new ! i) + 1
      \<and> (length data * 8 \<le> i \<longrightarrow> ?new ! i = flat_img ! i)"
    if i: "i < length flat_img" for i
  proof (cases "i < length (binary_string data)")
    case True
    with i have new: "?new ! i = (flat_img ! i AND 0xFE) OR of_bool (binary_string data ! i)"
      by (simp add: nth_embed)
    from True have "\<not> length data * 8 \<le> i"
      by (simp add: length_binary_string)
    then show ?thesis
      unfolding new using lsb_write_close high_bits_kept by blast
  next
    case False
    with i have "?new ! i = flat_img ! i"
      by (simp add: nth_embed)
    then show ?thesis by simp
  qed
  have "length ?new = length flat_img"
    by (rule length_embed)
  with entry show ?thesis by blast
qed

theorem embedding_changes_lsb_only_witness:
  "length (embed_bits (binary_string [0xFF]) (replicate 10 0x10)) = 10
   \<and> embed_bits (binary_string [0xFF]) (replicate 10 0x10) ! 8 = 0x10
   \<and> unat (embed_bits (binary_string [0xFF]) (replicate 10 0x10) ! 3) \<le> 0x11
   \<and> bit (embed_bits (binary_string [0xFF]) (replicate 10 0x10) ! 3) 4"
proof -
  note t = embedding_changes_lsb_only[of "[0xFF]" "replicate 10 0x10"]
  from t have "length (embed_bits (binary_string [0xFF]) (replicate 10 0x10)) = 10" by simp
  moreover from t[THEN conjunct2, rule_format, of 8]
  have "embed_bits (binary_string [0xFF]) (replicate 10 0x10) ! 8 = 0x10" by simp
  moreover from t[THEN conjunct2, rule_format, of 3]
  have "unat (embed_bits (binary_string [0xFF]) (replicate 10 0x10) ! 3) \<le> 0x11
        \<and> bit (embed_bits (binary_string [0xFF]) (replicate 10 0x10) ! 3) 4"
    by simp
  ultimately show ?thesis by simp
qed

subsection \<open>The layout of the hidden region\<close>

lemma nth_binary_string:
  assumes "k < length bs" and "j < 8"
  shows "binary_string bs ! (8 * k + j) = bit (bs ! k) (7 - j)"
proof -
  have "8 * k + j < length (binary_string bs)"
    using assms by (simp add: length_binary_string)
  then have "binary_string bs ! (8 * k + j) = take 8 (drop (8 * k) (binary_string bs)) ! j"
    using assms(2) by simp
  also have "\<dots> = format_08b (bs ! k) ! j"
    by (simp only: group_binary_string[OF assms(1)])
  finally show ?thesis using assms(2) by (simp add: nth_format_08b)
qed

lemma bit_int_base2:
  assumes "length g = 8" and "j < 8"
  shows "bit (of_nat (int_base2 g) :: byte) (7 - j) = g ! j"
proof -
  have "int_base2 g = horner_sum of_bool (2::nat) (rev g)"
    using foldl_horner_sum[of "rev g"] by (simp add: int_base2_def)
  then have "(of_nat (int_base2 g) :: byte) = horner_sum of_bool 2 (rev g)"
    by (simp add: word_of_horner_sum)
  moreover have "7 - j < 8" by linarith
  ultimately have "bit (of_nat (int_base2 g) :: byte) (7 - j) = rev g ! (7 - j)"
    using assms by (simp add: bit_horner_sum_bit_iff)
  also have "\<dots> = g ! j"
    using assms by (simp add: rev_nth)
  finally show ?thesis .
qed

lemma nth_bits_to_bytes:
  assumes "k < length ds div 8" and "j < 8"
  shows "bit (bits_to_bytes ds ! k) (7 - j) = ds ! (8 * k + j)"
proof -
  from assms(1) have len: "8 * k + 8 \<le> length ds" by linarith
  have "bits_to_bytes ds ! k = of_nat (int_base2 (take 8 (drop (8 * k) ds)))"
    using assms(1) by (simp add: bits_to_bytes_groups)
  moreover have "length (take 8 (drop (8 * k) ds)) = 8"
    using len by simp
  ultimately have "bit (bits_to_bytes ds ! k) (7 - j) = take 8 (drop (8 * k) ds) ! j"
    using assms(2) by (simp add: bit_int_base2)
  also have "\<dots> = ds ! (8 * k + j)"
    using assms(2) len by simp
  finally show ?thesis .
qed

lemma nth_binary_string_div:
  assumes "i < 8 * length bs"
  shows "binary_string bs ! i = bit (bs ! (i div 8)) (7 - i mod 8)"
proof -
  from assms have "i div 8 < length bs" by linarith
  moreover have "i mod 8 < 8" by simp
  ultimately have "binary_string bs ! (8 * (i div 8) + i mod 8)
                     = bit (bs ! (i div 8)) (7 - i mod 8)"
    by (rule nth_binary_string)
  then show ?thesis by simp
qed

lemma extract_header_embedded:
  assumes "length hb = 74" and "8 * (74 + length ct) \<le> length flat"
  shows "extract_header (embed_bits (binary_string (hb @ ct)) flat) = Inr hb"
proof -
  have "lsb_bits (embed_bits (binary_string (hb @ ct)) flat) 0 592
          = Inr (take 592 (binary_string (hb @ ct)))"
    by (rule lsb_bits_embed) (use assms in \<open>simp_all add: length_binary_string\<close>)
  moreover have "take 592 (binary_string (hb @ ct)) = binary_string hb"
    using assms(1) by (simp add: binary_string_append length_binary_string)
  ultimately show ?thesis
    by (simp add: extract_header_def HEADER_SIZE_def bits_to_bytes_binary_string)
qed

lemma extract_data_embedded:
  assumes "length hb = 74" and "8 * (74 + length ct) \<le> length flat"
  shows "extract_data (embed_bits (binary_string (hb @ ct)) flat) (length ct) = Inr ct"
proof -
  have "lsb_bits (embed_bits (binary_string (hb @ ct)) flat) 592 (592 + length ct * 8)
          = Inr (list_slice 592 (592 + length ct * 8) (binary_string (hb @ ct)))"
    by (rule lsb_bits_embed_from) (use assms in \<open>simp_all add: length_binary_string\<close>)
  moreover have "list_slice 592 (592 + length ct * 8) (binary_string (hb @ ct))
                   = binary_string ct"
    using assms(1)
    by (simp add: list_slice_def binary_string_append length_binary_string)
  ultimately show ?thesis
    by (simp add: extract_data_def HEADER_SIZE_def bits_to_bytes_binary_string)
qed

lemma extract_header_bits:
  assumes "extract_header flat = Inr H"
  shows "length H = 74
       \<and> (\<forall>k<74. \<forall>j<8. bit (H ! k) (7 - j) = (flat ! (8 * k + j) AND 1 = 1))"
proof -
  let ?ds = "map (\<lambda>i. flat ! i AND 1 = 1) [0..<592]"
  from assms have H: "H = bits_to_bytes ?ds"
    by (auto simp: extract_header_def lsb_bits_def HEADER_SIZE_def split: if_splits)
  have bits: "bit (H ! k) (7 - j) = (flat ! (8 * k + j) AND 1 = 1)" if "k < 74" "j < 8" for k j
  proof -
    from that have "k < length ?ds div 8" and i: "8 * k + j < 592" by simp_all
    then have "bit (H ! k) (7 - j) = ?ds ! (8 * k + j)"
      unfolding H using that(2) by (intro nth_bits_to_bytes)
    with i show ?thesis by simp
  qed
  have "length H = 74" unfolding H by (simp add: length_bits_to_bytes)
  with bits show ?thesis by blast
qed

lemma extract_data_bits:
  assumes "extract_data flat n = Inr C"
  shows "length C = n
       \<and> (\<forall>k<n. \<forall>j<8.
             bit (C ! k) (7 - j) = (flat ! (HEADER_SIZE * 8 + 8 * k + j) AND 1 = 1))"
proof -
  let ?ds = "map (\<lambda>i. flat ! i AND 1 = 1) [592..<592 + n * 8]"
  from assms have C: "C = bits_to_bytes ?ds"
    by (auto simp: extract_data_def lsb_bits_def HEADER_SIZE_def Let_def split: if_splits)
  have bits: "bit (C ! k) (7 - j) = (flat ! (HEADER_SIZE * 8 + 8 * k + j) AND 1 = 1)"
    if "k < n" "j < 8" for k j
  proof -
    from that have "k < length ?ds div 8" and i: "8 * k + j < n * 8" by simp_all
    then have "bit (C ! k) (7 - j) = ?ds ! (8 * k + j)"
      unfolding C using that(2) by (intro nth_bits_to_bytes)
    with i show ?thesis by (simp add: HEADER_SIZE_def add.assoc)
  qed
  have "length C = n" unfolding C by (simp add: length_bits_to_bytes)
  with bits show ?thesis by blast
qed

text \<open>
  Claim C6: when \<^verbatim>\<open>encode\<close> succeeds, the raster of the image it writes is the raster
  it embedded into with, in the low-order bit of entry \<open>i\<close>, for every \<open>i\<close> below eight
  times the number of hidden bytes, bit \<open>7 - i mod 8\<close> of byte \<open>i div 8\<close> of the header
  bytes followed at once by the bytes of the encrypted data: most significant bit first,
  one bit per entry, from index 0. What \<^verbatim>\<open>decode\<close> reads from that raster is the header
  and the encrypted data again, and it hands the key of the header and the encrypted data
  to the decryption. On any raster, each byte \<^verbatim>\<open>decode\<close> reads is made of eight
  consecutive low-order bits, the first being its most significant bit: header byte \<open>k\<close>
  of entries \<open>8 * k\<close> to \<open>8 * k + 7\<close>, data byte \<open>k\<close> of the eight entries from
  \<open>592 + 8 * k\<close> on.
\<close>

theorem hidden_region_layout:
  assumes inp: "fs input_path = Some (ImageFile img)"
    and wf: "length (pixels img) = width img * height img"
    and ct: "encrypt_message lib rnd message (case link_arg of None \<Rightarrow> [] | Some l \<Rightarrow> l)
               = Inr ciphertext"
    and hb: "pack_header rnd (length ciphertext) = Inr header_bytes"
    and fits: "(length header_bytes + length ciphertext) * 8 \<le> width img * height img * 3"
    and enc: "encode lib rnd fs input_path output_path message link_arg watermark_text style
                = (fs', result)"
    and old: "flat_img = flatten (pixels (watermarked lib img watermark_text style))"
  shows "(\<exists>encoded_img.
            fs' (png_path lib output_path) = Some (ImageFile encoded_img)
          \<and> length (flatten (pixels encoded_img)) = length flat_img
          \<and> (\<forall>i<length flat_img.
                flatten (pixels encoded_img) ! i =
                  (if i < (length header_bytes + length ciphertext) * 8
                   then (flat_img ! i AND 0xFE)
                          OR of_bool (bit ((header_bytes @ ciphertext) ! (i div 8)) (7 - i mod 8))
                   else flat_img ! i))
          \<and> extract_header (flatten (pixels encoded_img)) = Inr header_bytes
          \<and> extract_data (flatten (pixels encoded_img)) (length ciphertext) = Inr ciphertext
          \<and> decode_image lib' encoded_img =
              (if length ciphertext > 10000000 then Inr None
               else case decrypt_message lib' (token_bytes (key_source rnd) 32) ciphertext of
                      Inl e \<Rightarrow> Inr None
                    | Inr m \<Rightarrow> Inr (Some m)))
       \<and> (\<forall>flat H. extract_header flat = Inr H \<longrightarrow>
             length H = 74
           \<and> (\<forall>k<74. \<forall>j<8. bit (H ! k) (7 - j) = (flat ! (8 * k + j) AND 1 = 1)))
       \<and> (\<forall>flat n C. extract_data flat n = Inr C \<longrightarrow>
             length C = n
           \<and> (\<forall>k<n. \<forall>j<8.
                 bit (C ! k) (7 - j) = (flat ! (HEADER_SIZE * 8 + 8 * k + j) AND 1 = 1)))"
proof -
  let ?link = "case link_arg of None \<Rightarrow> [] | Some l \<Rightarrow> l"
  let ?data = "header_bytes @ ciphertext"
  let ?new = "embed_bits (binary_string ?data) flat_img"
  let ?enc = "\<lparr>width = width img, height = height img, pixels = regroup ?new\<rparr>"
  from hb have small: "length ciphertext < 2 ^ 64"
    by (auto simp: pack_header_def struct_pack_header_def utf8_encode_SIGNATURE Let_def
        split: if_splits)
  from hb have framed: "header_bytes = framed_header rnd (length ciphertext)"
    by (simp add: pack_header_eq[OF small])
  note hf = header_layout_facts[OF small, of rnd, folded framed]
  have data: "data_to_hide lib rnd message ?link = Inr ?data"
    using ct hb by (simp add: data_to_hide_def)
  have lflat: "length flat_img = 3 * (width img * height img)"
    unfolding old by (simp add: length_flatten length_pixels_watermarked wf)
  from fits have fits': "8 * length ?data \<le> width img * height img * 3"
    by (simp add: mult.commute)
  have "encode lib rnd fs input_path output_path message link_arg watermark_text style =
          (fs(png_path lib output_path \<mapsto> ImageFile ?enc), Inr True)"
    unfolding old using inp data fits' by (rule encode_written)
  with enc have fs': "fs' (png_path lib output_path) = Some (ImageFile ?enc)"
    by auto
  have flat': "flatten (pixels ?enc) = ?new"
    by (simp add: flatten_regroup[where n = "width img * height img"] length_embed lflat)
  have len: "length (flatten (pixels ?enc)) = length flat_img"
    unfolding flat' by (rule length_embed)
  have entry: "flatten (pixels ?enc) ! i =
                  (if i < (length header_bytes + length ciphertext) * 8
                   then (flat_img ! i AND 0xFE)
                          OR of_bool (bit (?data ! (i div 8)) (7 - i mod 8))
                   else flat_img ! i)"
    if i: "i < length flat_img" for i
  proof (cases "i < 8 * length ?data")
    case True
    with i show ?thesis
      unfolding flat'
      by (simp add: nth_embed length_binary_string nth_binary_string_div[OF True]
          mult.commute)
  next
    case False
    with i show ?thesis
      unfolding flat' by (simp add: nth_embed length_binary_string mult.commute)
  qed
  from fits hf(1) lflat have room: "8 * (74 + length ciphertext) \<le> length flat_img"
    by simp
  have eh: "extract_header (flatten (pixels ?enc)) = Inr header_bytes"
    unfolding flat' using hf(1) room by (rule extract_header_embedded)
  have ed: "extract_data (flatten (pixels ?enc)) (length ciphertext) = Inr ciphertext"
    unfolding flat' using hf(1) room by (rule extract_data_embedded)
  have "decode_image lib' ?enc =
          (if length ciphertext > 10000000 then Inr None
           else case decrypt_message lib' (list_slice 10 42 header_bytes) ciphertext of
                  Inl e \<Rightarrow> Inr None
                | Inr m \<Rightarrow> Inr (Some m))"
    using hf(1) hf(2) hf(3) room flat' by (rule decode_image_embedded)
  then have di: "decode_image lib' ?enc =
          (if length ciphertext > 10000000 then Inr None
           else case decrypt_message lib' (token_bytes (key_source rnd) 32) ciphertext of
                  Inl e \<Rightarrow> Inr None
                | Inr m \<Rightarrow> Inr (Some m))"
    by (simp only: hf(4))
  from fs' len entry eh ed di
  have first: "\<exists>encoded_img.
            fs' (png_path lib output_path) = Some (ImageFile encoded_img)
          \<and> length (flatten (pixels encoded_img)) = length flat_img
          \<and> (\<forall>i<length flat_img.
                flatten (pixels encoded_img) ! i =
                  (if i < (length header_bytes + length ciphertext) * 8
                   then (flat_img ! i AND 0xFE)
                          OR of_bool (bit ((header_bytes @ ciphertext) ! (i div 8)) (7 - i mod 8))
                   else flat_img ! i))
          \<and> extract_header (flatten (pixels encoded_img)) = Inr header_bytes
          \<and> extract_data (flatten (pixels encoded_img)) (length ciphertext) = Inr ciphertext
          \<and> decode_image lib' encoded_img =
              (if length ciphertext > 10000000 then Inr None
               else case decrypt_message lib' (token_bytes (key_source rnd) 32) ciphertext of
                      Inl e \<Rightarrow> Inr None
                    | Inr m \<Rightarrow> Inr (Some m))"
    by (intro exI[of _ ?enc] conjI allI impI) assumption+
  from first extract_header_bits extract_data_bits show ?thesis by blast
qed

theorem hidden_region_layout_witness:
  "\<exists>encoded_img.
      fst (encode plain_library zero_entropy [str ''in.png'' \<mapsto> ImageFile (blank_image 16 18)]
             (str ''in.png'') (str ''out.png'') (str ''h'') None None ())
        (png_path plain_library (str ''out.png'')) = Some (ImageFile encoded_img)
    \<and> extract_header (flatten (pixels encoded_img)) = Inr (framed_header zero_entropy 34)
    \<and> extract_data (flatten (pixels encoded_img)) 34 = Inr (replicate 32 0 @ [0x78, 0x68])
    \<and> decode_image plain_library encoded_img = Inr (Some (str ''h''))"
proof -
  let ?ct = "replicate 32 0 @ [0x78, 0x68] :: bytes"
  let ?hb = "framed_header zero_entropy 34"
  have l34: "length ?ct = 34" by simp
  have inp: "[str ''in.png'' \<mapsto> ImageFile (blank_image 16 18)] (str ''in.png'')
               = Some (ImageFile (blank_image 16 18))"
    by simp
  have wf: "length (pixels (blank_image 16 18))
              = width (blank_image 16 18) * height (blank_image 16 18)"
    by (simp add: blank_image_def)
  have ct: "encrypt_message plain_library zero_entropy (str ''h'')
              (case None of None \<Rightarrow> [] | Some l \<Rightarrow> l) = Inr ?ct"
    by (simp add: plain_encrypt_h)
  have hb: "pack_header zero_entropy (length ?ct) = Inr ?hb"
    unfolding l34 by (rule pack_header_eq) simp
  have lhb: "length ?hb = 74"
    by (rule header_layout_facts) simp
  have fits: "(length ?hb + length ?ct) * 8
                \<le> width (blank_image 16 18) * height (blank_image 16 18) * 3"
    unfolding lhb l34 by (simp add: blank_image_def)
  note t = hidden_region_layout[where fs = "[str ''in.png'' \<mapsto> ImageFile (blank_image 16 18)]"
      and input_path = "str ''in.png''" and lib = plain_library and rnd = zero_entropy
      and message = "str ''h''" and link_arg = None and output_path = "str ''out.png''"
      and watermark_text = None and style = "()" and lib' = plain_library,
      OF inp wf ct hb fits prod.collapse[symmetric] refl]
  from t obtain encoded_img where
    e: "fst (encode plain_library zero_entropy
               [str ''in.png'' \<mapsto> ImageFile (blank_image 16 18)]
               (str ''in.png'') (str ''out.png'') (str ''h'') None None ())
          (png_path plain_library (str ''out.png'')) = Some (ImageFile encoded_img)"
    and h: "extract_header (flatten (pixels encoded_img)) = Inr ?hb"
    and d: "extract_data (flatten (pixels encoded_img)) (length ?ct) = Inr ?ct"
    and m: "decode_image plain_library encoded_img =
              (if length ?ct > 10000000 then Inr None
               else case decrypt_message plain_library
                           (token_bytes (key_source zero_entropy) 32) ?ct of
                      Inl e \<Rightarrow> Inr None
                    | Inr m \<Rightarrow> Inr (Some m))"
    by blast
  from m have "decode_image plain_library encoded_img = Inr (Some (str ''h''))"
    unfolding l34 zero_key by (simp add: plain_decrypt_h)
  moreover from d have "extract_data (flatten (pixels encoded_img)) 34 = Inr ?ct"
    unfolding l34 .
  ultimately show ?thesis using e h by blast
qed

subsection \<open>The length check of decode\<close>

lemma decode_image_signed:
  assumes hdr: "lsb_bits (flatten (pixels img)) 0 (HEADER_SIZE * 8) = Inr header_bits"
    and sig: "utf8_decode (list_slice 0 6 (bits_to_bytes header_bits)) = Inr SIGNATURE"
  shows "decode_image lib img =
           (case decode_try lib (flatten (pixels img)) (bits_to_bytes header_bits) of
              Inl e \<Rightarrow> Inr None | Inr r \<Rightarrow> Inr r)"
    and "length (bits_to_bytes header_bits) = 74"
    and "592 \<le> length (flatten (pixels img))"
proof -
  show "decode_image lib img =
           (case decode_try lib (flatten (pixels img)) (bits_to_bytes header_bits) of
              Inl e \<Rightarrow> Inr None | Inr r \<Rightarrow> Inr r)"
    using hdr by (simp add: decode_image_unfold Let_def)
  from lsb_bits_length[OF hdr] show "length (bits_to_bytes header_bits) = 74"
    by (simp add: length_bits_to_bytes HEADER_SIZE_def)
  from hdr show "592 \<le> length (flatten (pixels img))"
    by (auto simp: lsb_bits_def HEADER_SIZE_def split: if_splits)
qed

text \<open>
  Claim C4: when the raster holds a header whose signature passes the check of
  \<^verbatim>\<open>decode\<close>, and \<open>payload_length\<close> is the length read from it, \<^verbatim>\<open>decode\<close>
  returns \<open>None\<close> whenever \<open>payload_length * 8\<close> exceeds the capacity less the 592
  header bits or \<open>payload_length\<close> exceeds 10,000,000; otherwise it reads
  \<open>payload_length * 8\<close> digits after the header, makes \<open>payload_length\<close> bytes of
  them and goes on to decrypt these. (The test of line 328 compares the length in bytes with
  the number of bits left; a length that passes it and still does not fit ends in the
  \<^verbatim>\<open>IndexError\<close> of line 334, which the \<^verbatim>\<open>except\<close> clause turns into
  \<open>None\<close>.)
\<close>

theorem payload_length_validation:
  assumes hdr: "lsb_bits (flatten (pixels img)) 0 (HEADER_SIZE * 8) = Inr header_bits"
    and sig: "utf8_decode (list_slice 0 6 (bits_to_bytes header_bits)) = Inr SIGNATURE"
    and pl: "payload_length = le_value (list_slice 58 66 (bits_to_bytes header_bits))"
    and cap: "capacity_bits = length (flatten (pixels img))"
  shows "(int payload_length * 8 > int capacity_bits - 74 * 8 \<or> payload_length > 10000000
            \<longrightarrow> decode_image lib img = Inr None)
       \<and> (\<not> (int payload_length * 8 > int capacity_bits - 74 * 8 \<or> payload_length > 10000000)
            \<longrightarrow> (\<exists>data_bits.
                   lsb_bits (flatten (pixels img)) (74 * 8) (74 * 8 + payload_length * 8)
                     = Inr data_bits
                   \<and> length data_bits = payload_length * 8
                   \<and> length (bits_to_bytes data_bits) = payload_length
                   \<and> decode_image lib img =
                       (case decrypt_message lib (list_slice 10 42 (bits_to_bytes header_bits))
                               (bits_to_bytes data_bits) of
                          Inl e \<Rightarrow> Inr None
                        | Inr message \<Rightarrow> Inr (Some message))))"
proof -
  let ?flat = "flatten (pixels img)"
  let ?hb = "bits_to_bytes header_bits"
  note d = decode_image_signed[OF hdr sig]
  have body: "decode_try lib ?flat ?hb =
           (if int payload_length > int (length ?flat) - 592 \<or> payload_length > 10000000
            then Inr None
            else case lsb_bits ?flat 592 (592 + payload_length * 8) of
                   Inl e \<Rightarrow> Inl e
                 | Inr ds \<Rightarrow>
                     (case decrypt_message lib (list_slice 10 42 ?hb) (bits_to_bytes ds) of
                        Inl e \<Rightarrow> Inl e
                      | Inr m \<Rightarrow> Inr (Some m)))"
    unfolding pl using decode_try_signed[OF d(2) sig, of lib ?flat] by (simp add: Let_def)
  have reject: "decode_image lib img = Inr None"
    if "int payload_length * 8 > int capacity_bits - 74 * 8 \<or> payload_length > 10000000"
  proof (cases "int payload_length > int (length ?flat) - 592 \<or> payload_length > 10000000")
    case True
    then show ?thesis unfolding d(1) body by simp
  next
    case False
    with that cap d(3) have "592 < 592 + payload_length * 8"
      and "length ?flat < 592 + payload_length * 8"
      by linarith+
    then have "lsb_bits ?flat 592 (592 + payload_length * 8) = Inl IndexError"
      by (simp add: lsb_bits_def)
    with False show ?thesis unfolding d(1) body by simp
  qed
  have accept: "\<exists>data_bits.
                   lsb_bits ?flat (74 * 8) (74 * 8 + payload_length * 8) = Inr data_bits
                   \<and> length data_bits = payload_length * 8
                   \<and> length (bits_to_bytes data_bits) = payload_length
                   \<and> decode_image lib img =
                       (case decrypt_message lib (list_slice 10 42 ?hb) (bits_to_bytes data_bits) of
                          Inl e \<Rightarrow> Inr None
                        | Inr message \<Rightarrow> Inr (Some message))"
    if no: "\<not> (int payload_length * 8 > int capacity_bits - 74 * 8 \<or> payload_length > 10000000)"
  proof -
    from no cap d(3) have fits: "592 + payload_length * 8 \<le> length ?flat"
      and small: "\<not> (int payload_length > int (length ?flat) - 592 \<or> payload_length > 10000000)"
      by linarith+
    let ?ds = "map (\<lambda>i. ?flat ! i AND 1 = 1) [592..<592 + payload_length * 8]"
    from fits have ds: "lsb_bits ?flat 592 (592 + payload_length * 8) = Inr ?ds"
      by (simp add: lsb_bits_def)
    have "decode_image lib img =
            (case decrypt_message lib (list_slice 10 42 ?hb) (bits_to_bytes ?ds) of
               Inl e \<Rightarrow> Inr None
             | Inr message \<Rightarrow> Inr (Some message))"
      unfolding d(1) body using small by (simp add: ds split: sum.splits)
    moreover have "length ?ds = payload_length * 8" by simp
    moreover have "length (bits_to_bytes ?ds) = payload_length"
      by (simp add: length_bits_to_bytes)
    ultimately show ?thesis using ds by simp
  qed
  from reject accept show ?thesis by blast
qed

lemma flatten_carrier:
  "flatten (pixels (carrier data n)) = embed_bits (binary_string data) (replicate (3 * n) 0)"
  by (simp add: carrier_def flatten_regroup[where n = n] length_embed)

lemma header_of_carrier:
  assumes "length hb = 74" and "8 * (74 + length rest) \<le> 3 * n"
  shows "lsb_bits (flatten (pixels (carrier (hb @ rest) n))) 0 (HEADER_SIZE * 8)
           = Inr (binary_string hb)"
proof -
  have "lsb_bits (embed_bits (binary_string (hb @ rest)) (replicate (3 * n) 0)) 0 592
          = Inr (list_slice 0 592 (binary_string (hb @ rest)))"
    by (rule lsb_bits_embed_from) (use assms in \<open>simp_all add: length_binary_string\<close>)
  then show ?thesis
    using assms
    by (simp add: flatten_carrier HEADER_SIZE_def list_slice_def binary_string_append
        length_binary_string)
qed

subsection \<open>The delimiter\<close>

lemma length_recorded: "length recorded_key = 32" "length recorded_token = 100"
  by (simp_all add: recorded_key_def length_token_bytes recorded_token_def ascii_def)

lemma zero_delimiter_header_slices:
  "length zero_delimiter_header = 74"
  "list_slice 0 6 zero_delimiter_header = signature_bytes"
  "list_slice 10 42 zero_delimiter_header = recorded_key"
  "list_slice 58 66 zero_delimiter_header = le_bytes 8 100"
  "list_slice 66 74 zero_delimiter_header = [0, 0, 0, 0, 0, 0, 0, 0]"
  unfolding zero_delimiter_header_def
  by (simp_all add: header_layout_slices length_signature_bytes length_le_bytes
      length_recorded length_token_bytes)

lemma recorded_decrypt:
  "decrypt_message recorded_library recorded_key recorded_token = Inr (str ''hi'')"
  by (simp add: decrypt_message_def recorded_library_def utf8_decode_def str_def
      recorded_compressed_def)

text \<open>
  Claim C8 says that \<^verbatim>\<open>decode\<close> checks the delimiter of a header that has the
  signature, and that a header with another delimiter yields no message. It does not hold:
  \<^verbatim>\<open>decode\<close> never reads bytes 66 to 74 of the header. The image below carries a header
  with the signature and eight zero bytes for a delimiter, followed by a Fernet token of the
  compressed message \<^verbatim>\<open>hi\<close> under the key of the header, and \<^verbatim>\<open>decode\<close> returns
  the message \<^verbatim>\<open>hi\<close> from it.
\<close>

theorem delimiter_checked_counterexample:
  "list_slice 0 6 zero_delimiter_header = signature_bytes
   \<and> list_slice 66 74 zero_delimiter_header \<noteq> DELIMITER
   \<and> extract_header (flatten (pixels zero_delimiter_image)) = Inr zero_delimiter_header
   \<and> decode_image recorded_library zero_delimiter_image = Inr (Some (str ''hi''))"
proof -
  note sl = zero_delimiter_header_slices
  have sig: "utf8_decode (list_slice 0 6 zero_delimiter_header) = Inr SIGNATURE"
    unfolding sl by (simp add: signature_bytes_def utf8_decode_signature)
  have n: "le_value (list_slice 58 66 zero_delimiter_header) = length recorded_token"
    unfolding sl by (simp add: le_value_le_bytes length_recorded)
  have fit: "8 * (74 + length recorded_token) \<le> length (replicate (3 * 464) (0 :: byte))"
    by (simp add: length_recorded)
  have img: "flatten (pixels zero_delimiter_image)
               = embed_bits (binary_string (zero_delimiter_header @ recorded_token))
                   (replicate (3 * 464) 0)"
    unfolding zero_delimiter_image_def by (rule flatten_carrier)
  have "decode_image recorded_library zero_delimiter_image = Inr (Some (str ''hi''))"
    using decode_image_embedded[OF sl(1) sig n fit img, of recorded_library]
    unfolding sl by (simp add: recorded_decrypt length_recorded)
  moreover have "extract_header (flatten (pixels zero_delimiter_image))
                   = Inr zero_delimiter_header"
    unfolding img using sl(1) fit by (rule extract_header_embedded)
  moreover have "list_slice 66 74 zero_delimiter_header \<noteq> DELIMITER"
    unfolding sl by (simp add: DELIMITER_def)
  ultimately show ?thesis using sl(2) by simp
qed

lemma lsb_bits_cong:
  assumes "length f = length f'"
    and "\<And>i. a \<le> i \<Longrightarrow> i < b \<Longrightarrow> i < length f \<Longrightarrow> (f ! i AND 1) = (f' ! i AND 1)"
  shows "lsb_bits f a b = lsb_bits f' a b"
proof (cases "a < b \<and> length f < b")
  case True
  with assms(1) show ?thesis by (simp add: lsb_bits_def)
next
  case False
  then have "map (\<lambda>i. f ! i AND 1 = 1) [a..<b] = map (\<lambda>i. f' ! i AND 1 = 1) [a..<b]"
    using assms(2) by (intro map_cong) auto
  with False assms(1) show ?thesis by (simp add: lsb_bits_def)
qed

lemma take_bits_to_bytes: "take k (bits_to_bytes ds) = bits_to_bytes (take (8 * k) ds)"
proof (rule nth_equalityI)
  show "length (take k (bits_to_bytes ds)) = length (bits_to_bytes (take (8 * k) ds))"
    by (simp add: length_bits_to_bytes min_def) linarith
next
  fix i assume "i < length (take k (bits_to_bytes ds))"
  then have i: "i < k" "i < length ds div 8"
    by (simp_all add: length_bits_to_bytes)
  then have le: "8 * i + 8 \<le> 8 * k" "8 * i + 8 \<le> length ds" by linarith+
  then have "8 * i + 8 \<le> min (length ds) (8 * k)" by simp
  then have "i < min (length ds) (8 * k) div 8" by linarith
  then have "i < length (take (8 * k) ds) div 8" by simp
  moreover from le have "take 8 (drop (8 * i) (take (8 * k) ds)) = take 8 (drop (8 * i) ds)"
    by (simp add: drop_take min_def)
  ultimately have "i < length (take (8 * k) ds) div 8"
    and "take 8 (drop (8 * i) (take (8 * k) ds)) = take 8 (drop (8 * i) ds)"
    by simp_all
  with i show "take k (bits_to_bytes ds) ! i = bits_to_bytes (take (8 * k) ds) ! i"
    by (simp add: bits_to_bytes_groups)
qed

lemma list_slice_take: "b \<le> n \<Longrightarrow> list_slice a b (take n xs) = list_slice a b xs"
  by (simp add: list_slice_def drop_take min_def)

lemma decode_try_cong:
  assumes hb: "take 66 hb = take 66 hb'"
    and len: "length f = length f'"
    and dat: "\<And>b. lsb_bits f (HEADER_SIZE * 8) b = lsb_bits f' (HEADER_SIZE * 8) b"
  shows "decode_try lib f hb = decode_try lib f' hb'"
proof -
  have sl: "list_slice a b hb = list_slice a b hb'" if "b \<le> 66" for a b
    using list_slice_take[OF that, of a hb] list_slice_take[OF that, of a hb'] hb by simp
  have s: "list_slice 0 6 hb = list_slice 0 6 hb'" "list_slice 6 10 hb = list_slice 6 10 hb'"
    "list_slice 10 42 hb = list_slice 10 42 hb'" "list_slice 42 58 hb = list_slice 42 58 hb'"
    "list_slice 58 66 hb = list_slice 58 66 hb'"
    by (simp_all add: sl)
  show ?thesis
    unfolding decode_try_unfold Let_def s len dat ..
qed

text \<open>
  Claim C8, amended: what \<^verbatim>\<open>decode\<close> returns does not depend on the delimiter field.
  Two images of the same size whose low-order bits agree everywhere but at the 64 positions
  of header bytes 66 to 74 give the same result.
\<close>

theorem delimiter_ignored:
  assumes len: "length (pixels img) = length (pixels img')"
    and same: "\<forall>i<length (flatten (pixels img)). i < 66 * 8 \<or> 74 * 8 \<le> i \<longrightarrow>
                 (flatten (pixels img) ! i AND 1) = (flatten (pixels img') ! i AND 1)"
  shows "decode_image lib img = decode_image lib img'"
proof -
  let ?f = "flatten (pixels img)" and ?f' = "flatten (pixels img')"
  from len have lf: "length ?f = length ?f'" by (simp add: length_flatten)
  show ?thesis
  proof (cases "length ?f < 592")
    case True
    with lf show ?thesis
      by (simp add: decode_image_unfold lsb_bits_def HEADER_SIZE_def)
  next
    case False
    let ?hd = "map (\<lambda>i. ?f ! i AND 1 = 1) [0..<592]"
    let ?hd' = "map (\<lambda>i. ?f' ! i AND 1 = 1) [0..<592]"
    from False lf have h: "lsb_bits ?f 0 (HEADER_SIZE * 8) = Inr ?hd"
      "lsb_bits ?f' 0 (HEADER_SIZE * 8) = Inr ?hd'"
      by (simp_all add: lsb_bits_def HEADER_SIZE_def)
    have "take 528 ?hd = map (\<lambda>i. ?f ! i AND 1 = 1) [0..<528]"
      "take 528 ?hd' = map (\<lambda>i. ?f' ! i AND 1 = 1) [0..<528]"
      by (simp_all add: take_map)
    moreover have "map (\<lambda>i. ?f ! i AND 1 = 1) [0..<528] = map (\<lambda>i. ?f' ! i AND 1 = 1) [0..<528]"
      using same False by (intro map_cong) auto
    ultimately have "take (8 * 66) ?hd = take (8 * 66) ?hd'" by simp
    then have hb: "take 66 (bits_to_bytes ?hd) = take 66 (bits_to_bytes ?hd')"
      by (simp only: take_bits_to_bytes)
    have dat: "lsb_bits ?f (HEADER_SIZE * 8) b = lsb_bits ?f' (HEADER_SIZE * 8) b" for b
      by (rule lsb_bits_cong[OF lf]) (use same in \<open>simp add: HEADER_SIZE_def\<close>)
    have "decode_try lib ?f (bits_to_bytes ?hd) = decode_try lib ?f' (bits_to_bytes ?hd')"
      using hb lf dat by (rule decode_try_cong)
    then show ?thesis
      by (simp add: decode_image_unfold h Let_def)
  qed
qed

lemma binary_string_outside_delimiter:
  assumes "length s = 6" "length v = 4" "length k = 32" "length t = 16" "length n = 8"
    "length d = 8" "length d' = 8"
    and "i < 66 * 8 \<or> 74 * 8 \<le> i"
  shows "binary_string (header_layout s v k t n d @ ct) ! i
           = binary_string (header_layout s v k t n d' @ ct) ! i"
proof -
  let ?p = "binary_string (s @ v @ k @ t @ n)"
  have lp: "length ?p = 528" using assms by (simp add: length_binary_string)
  have ld: "length (binary_string d) = 64" "length (binary_string d') = 64"
    using assms by (simp_all add: length_binary_string)
  have "binary_string (header_layout s v k t n d @ ct) = ?p @ binary_string d @ binary_string ct"
    "binary_string (header_layout s v k t n d' @ ct) = ?p @ binary_string d' @ binary_string ct"
    by (simp_all add: header_layout_def binary_string_append)
  then show ?thesis
    using assms(8) lp ld by (auto simp: nth_append)
qed

lemma length_pixels_carrier: "length (pixels (carrier data n)) = n"
proof -
  have "3 * length (pixels (carrier data n)) = 3 * n"
    using length_flatten[of "pixels (carrier data n)"]
    by (simp add: flatten_carrier length_embed)
  then show ?thesis by simp
qed

theorem delimiter_ignored_witness:
  "decode_image recorded_library
     (carrier (framed_header counting_entropy 100 @ recorded_token) 464)
   = decode_image recorded_library zero_delimiter_image"
proof -
  let ?good = "carrier (framed_header counting_entropy 100 @ recorded_token) 464"
  have len: "length (pixels ?good) = length (pixels zero_delimiter_image)"
    by (simp add: zero_delimiter_image_def length_pixels_carrier)
  have same: "\<forall>i<length (flatten (pixels ?good)). i < 66 * 8 \<or> 74 * 8 \<le> i \<longrightarrow>
                 (flatten (pixels ?good) ! i AND 1)
                   = (flatten (pixels zero_delimiter_image) ! i AND 1)"
  proof (intro allI impI)
    fix i assume i: "i < length (flatten (pixels ?good))" and out: "i < 66 * 8 \<or> 74 * 8 \<le> i"
    have "binary_string (framed_header counting_entropy 100 @ recorded_token) ! i
            = binary_string (zero_delimiter_header @ recorded_token) ! i"
      unfolding framed_header_def zero_delimiter_header_def recorded_key_def
      by (rule binary_string_outside_delimiter)
        (use out in \<open>simp_all add: length_signature_bytes length_le_bytes length_DELIMITER
                       length_token_bytes\<close>)
    moreover have "length (framed_header counting_entropy 100) = 74"
      by (rule header_layout_facts) simp
    ultimately show "(flatten (pixels ?good) ! i AND 1)
                   = (flatten (pixels zero_delimiter_image) ! i AND 1)"
      using i
      by (simp add: flatten_carrier zero_delimiter_image_def length_embed nth_embed
          length_binary_string zero_delimiter_header_slices)
  qed
  from delimiter_ignored[OF len same] show ?thesis .
qed

theorem payload_length_validation_witness:
  "decode_image plain_library (carrier (framed_header zero_entropy 5000) 200) = Inr None"
proof -
  let ?hb = "framed_header zero_entropy 5000"
  let ?img = "carrier ?hb 200"
  have small: "(5000::nat) < 2 ^ 64" by simp
  note hf = header_layout_facts[OF small, of zero_entropy]
  have hdr: "lsb_bits (flatten (pixels ?img)) 0 (HEADER_SIZE * 8) = Inr (binary_string ?hb)"
    using header_of_carrier[of ?hb "[]" 200] hf(1) by simp
  have sig: "utf8_decode (list_slice 0 6 (bits_to_bytes (binary_string ?hb))) = Inr SIGNATURE"
    by (simp add: bits_to_bytes_binary_string hf(2))
  have pl: "5000 = le_value (list_slice 58 66 (bits_to_bytes (binary_string ?hb)))"
    by (simp add: bits_to_bytes_binary_string hf(3))
  have cap: "600 = length (flatten (pixels ?img))"
    by (simp add: flatten_carrier length_embed)
  from payload_length_validation[OF hdr sig pl cap, of plain_library]
  show ?thesis by simp
qed

subsection \<open>The capacity check of encode\<close>

text \<open>
  Claim C2: for an input image that can be read and a message that can be encrypted into
  \<open>ciphertext\<close>, \<^verbatim>\<open>encode\<close> raises the \<^verbatim>\<open>ValueError\<close> of line 232 exactly when
  the 74 header bytes and the ciphertext need more bits than \<open>width * height * 3\<close>; a
  payload of exactly that many bits, or fewer, succeeds; and when the error is raised the
  file system is as before: no image was written, no raster was built or changed. (The
  bound on the length of the ciphertext holds for every \<^verbatim>\<open>bytes\<close> object of Python.)
\<close>

theorem capacity_boundary:
  assumes inp: "fs input_path = Some (ImageFile img)"
    and ct: "encrypt_message lib rnd message (case link_arg of None \<Rightarrow> [] | Some l \<Rightarrow> l)
               = Inr ciphertext"
    and small: "length ciphertext < 2 ^ 64"
    and enc: "encode lib rnd fs input_path output_path message link_arg watermark_text style
                = (fs', result)"
  shows "((\<exists>need available. result = Inl (ValueError need available))
            \<longleftrightarrow> (74 + length ciphertext) * 8 > width img * height img * 3)
       \<and> ((74 + length ciphertext) * 8 > width img * height img * 3
            \<longrightarrow> result = Inl (ValueError ((74 + length ciphertext) * 8)
                                 (width img * height img * 3))
                \<and> fs' = fs)
       \<and> ((74 + length ciphertext) * 8 \<le> width img * height img * 3 \<longrightarrow> result = Inr True)"
proof -
  let ?link = "case link_arg of None \<Rightarrow> [] | Some l \<Rightarrow> l"
  let ?hb = "framed_header rnd (length ciphertext)"
  have data: "data_to_hide lib rnd message ?link = Inr (?hb @ ciphertext)"
    by (rule data_to_hide_eq[OF ct small])
  have len: "8 * length (?hb @ ciphertext) = (74 + length ciphertext) * 8"
    using header_layout_facts(1)[OF small, of rnd] by simp
  show ?thesis
  proof (cases "(74 + length ciphertext) * 8 > width img * height img * 3")
    case True
    then have "8 * length (?hb @ ciphertext) > width img * height img * 3"
      using len by simp
    with inp data
    have "encode lib rnd fs input_path output_path message link_arg watermark_text style
            = (fs, Inl (ValueError (8 * length (?hb @ ciphertext)) (width img * height img * 3)))"
      by (rule encode_too_large)
    with enc have "fs' = fs"
      and "result = Inl (ValueError (8 * length (?hb @ ciphertext)) (width img * height img * 3))"
      by simp_all
    then have "fs' = fs"
      and "result = Inl (ValueError ((74 + length ciphertext) * 8) (width img * height img * 3))"
      unfolding len by - assumption+
    with True show ?thesis by auto
  next
    case False
    then have "8 * length (?hb @ ciphertext) \<le> width img * height img * 3"
      using len by simp
    with inp data
    have "encode lib rnd fs input_path output_path message link_arg watermark_text style
            = (fs(png_path lib output_path \<mapsto> ImageFile
                 \<lparr>width = width img, height = height img,
                  pixels = regroup (embed_bits (binary_string (?hb @ ciphertext))
                             (flatten (pixels (watermarked lib img watermark_text style))))\<rparr>),
               Inr True)"
      by (rule encode_written)
    with enc have "result = Inr True" by simp
    with False show ?thesis by simp
  qed
qed

theorem capacity_boundary_witness:
  "snd (encode plain_library zero_entropy [str ''in.png'' \<mapsto> ImageFile (blank_image 16 18)]
          (str ''in.png'') (str ''out.png'') (str ''h'') None None ()) = Inr True
   \<and> encode plain_library zero_entropy [str ''in.png'' \<mapsto> ImageFile (blank_image 16 17)]
          (str ''in.png'') (str ''out.png'') (str ''h'') None None ()
       = ([str ''in.png'' \<mapsto> ImageFile (blank_image 16 17)], Inl (ValueError 864 816))"
proof -
  have small: "length (replicate 32 (0::byte) @ [0x78, 0x68]) < 2 ^ 64" by simp
  have ct: "encrypt_message plain_library zero_entropy (str ''h'')
              (case None of None \<Rightarrow> [] | Some l \<Rightarrow> l) = Inr (replicate 32 0 @ [0x78, 0x68])"
    by (simp add: plain_encrypt_h)
  have a: "[str ''in.png'' \<mapsto> ImageFile (blank_image 16 18)] (str ''in.png'')
             = Some (ImageFile (blank_image 16 18))"
    and b: "[str ''in.png'' \<mapsto> ImageFile (blank_image 16 17)] (str ''in.png'')
             = Some (ImageFile (blank_image 16 17))"
    by simp_all
  from capacity_boundary[where fs = "[str ''in.png'' \<mapsto> ImageFile (blank_image 16 18)]"
      and input_path = "str ''in.png''" and lib = plain_library and rnd = zero_entropy
      and message = "str ''h''" and link_arg = None and output_path = "str ''out.png''"
      and watermark_text = None and style = "()", OF a ct small prod.collapse[symmetric]]
  have "snd (encode plain_library zero_entropy [str ''in.png'' \<mapsto> ImageFile (blank_image 16 18)]
          (str ''in.png'') (str ''out.png'') (str ''h'') None None ()) = Inr True"
    by (simp add: blank_image_def)
  moreover
  from capacity_boundary[where fs = "[str ''in.png'' \<mapsto> ImageFile (blank_image 16 17)]"
      and input_path = "str ''in.png''" and lib = plain_library and rnd = zero_entropy
      and message = "str ''h''" and link_arg = None and output_path = "str ''out.png''"
      and watermark_text = None and style = "()", OF b ct small prod.collapse[symmetric]]
  have "encode plain_library zero_entropy [str ''in.png'' \<mapsto> ImageFile (blank_image 16 17)]
          (str ''in.png'') (str ''out.png'') (str ''h'') None None ()
       = ([str ''in.png'' \<mapsto> ImageFile (blank_image 16 17)], Inl (ValueError 864 816))"
    by (simp add: blank_image_def prod_eq_iff)
  ultimately show ?thesis by simp
qed

subsection \<open>The round trip\<close>

lemma decode_encoded:
  assumes inp: "fs input_path = Some (ImageFile img)"
    and wf: "length (pixels img) = width img * height img"
    and lib: "library_inverts lib"
    and ct: "encrypt_message lib rnd message (case link_arg of None \<Rightarrow> [] | Some l \<Rightarrow> l)
               = Inr ciphertext"
    and fits: "(74 + length ciphertext) * 8 \<le> width img * height img * 3"
    and small: "length ciphertext < 2 ^ 64"
    and enc: "encode lib rnd fs input_path output_path message link_arg watermark_text style
                = (fs', result)"
  shows "result = Inr True"
    and "decode lib fs' (png_path lib output_path) =
           (if length ciphertext > 10000000 then Inr None
            else Inr (Some (full_message message (case link_arg of None \<Rightarrow> [] | Some l \<Rightarrow> l))))"
proof -
  from fits have fits': "8 * (74 + length ciphertext) \<le> width img * height img * 3"
    by (simp add: mult.commute)
  note w = decode_written[OF inp wf ct fits' small enc]
  from w show "result = Inr True" by simp
  from w show "decode lib fs' (png_path lib output_path) =
           (if length ciphertext > 10000000 then Inr None
            else Inr (Some (full_message message (case link_arg of None \<Rightarrow> [] | Some l \<Rightarrow> l))))"
    by (simp add: decrypt_message_encrypt[OF ct lib])
qed

text \<open>
  Claim C1, amended: for every message and link that \<^verbatim>\<open>encode\<close> can encrypt (every
  text without a lone surrogate: \<open>encrypt_message_total\<close>), with libraries whose
  decompression and decryption undo their compression and encryption, if the image has room
  for the 74 header bytes and the ciphertext and the ciphertext is at most 10,000,000 bytes
  long, then \<^verbatim>\<open>encode\<close> succeeds and \<^verbatim>\<open>decode\<close> of the file it wrote returns
  exactly the message when no link was given, and the message followed by
  \<^verbatim>\<open>\nLINK:\<close> and the link when a link was given. (To \<^verbatim>\<open>encode\<close> a link is
  given when it is not the empty string, which is its default.)
\<close>

theorem roundtrip:
  assumes inp: "fs input_path = Some (ImageFile img)"
    and wf: "length (pixels img) = width img * height img"
    and lib: "library_inverts lib"
    and ct: "encrypt_message lib rnd message (case link_arg of None \<Rightarrow> [] | Some l \<Rightarrow> l)
               = Inr ciphertext"
    and fits: "(74 + length ciphertext) * 8 \<le> width img * height img * 3"
    and ceiling: "length ciphertext \<le> 10000000"
    and enc: "encode lib rnd fs input_path output_path message link_arg watermark_text style
                = (fs', result)"
  shows "result = Inr True
       \<and> decode lib fs' (png_path lib output_path) =
           Inr (Some (case link_arg of
                        None \<Rightarrow> message
                      | Some link \<Rightarrow>
                          if link = [] then message
                          else message @ str (CHR 0x0A # ''LINK:'') @ link))"
proof -
  from ceiling have small: "length ciphertext < 2 ^ 64" by simp
  from decode_encoded[OF inp wf lib ct fits small enc] ceiling
  show ?thesis by (simp add: full_message_def split: option.splits)
qed

lemma plain_library_inverts: "library_inverts plain_library"
  by (simp add: library_inverts_def plain_library_def)

lemma plain_encrypt_linked:
  "encrypt_message plain_library zero_entropy [0x68, 0xE9] (str ''x'')
     = Inr (replicate 32 0 @ [0x78, 0x68, 0xC3, 0xA9, 0x0A, 0x4C, 0x49, 0x4E, 0x4B, 0x3A, 0x78])"
  by (simp add: encrypt_message_def full_message_def utf8_encode_def str_def scalar_value_def
      utf8_char_def plain_library_def zero_key)

theorem roundtrip_witness:
  "decode plain_library
     (fst (encode plain_library zero_entropy [str ''in.jpg'' \<mapsto> ImageFile (blank_image 20 20)]
             (str ''in.jpg'') (str ''out.png'') [0x68, 0xE9] (Some (str ''x'')) None ()))
     (png_path plain_library (str ''out.png''))
   = Inr (Some ([0x68, 0xE9] @ str (CHR 0x0A # ''LINK:'') @ str ''x''))"
proof -
  let ?ct = "replicate 32 0 @ [0x78, 0x68, 0xC3, 0xA9, 0x0A, 0x4C, 0x49, 0x4E, 0x4B, 0x3A, 0x78] :: bytes"
  have inp: "[str ''in.jpg'' \<mapsto> ImageFile (blank_image 20 20)] (str ''in.jpg'')
               = Some (ImageFile (blank_image 20 20))"
    by simp
  have wf: "length (pixels (blank_image 20 20)) = width (blank_image 20 20) * height (blank_image 20 20)"
    by (simp add: blank_image_def)
  have ct: "encrypt_message plain_library zero_entropy [0x68, 0xE9]
              (case Some (str ''x'') of None \<Rightarrow> [] | Some l \<Rightarrow> l) = Inr ?ct"
    by (simp add: plain_encrypt_linked)
  have fits: "(74 + length ?ct) * 8 \<le> width (blank_image 20 20) * height (blank_image 20 20) * 3"
    by (simp add: blank_image_def)
  have ceiling: "length ?ct \<le> 10000000" by simp
  from roundtrip[where fs = "[str ''in.jpg'' \<mapsto> ImageFile (blank_image 20 20)]"
      and input_path = "str ''in.jpg''" and lib = plain_library and rnd = zero_entropy
      and message = "[0x68, 0xE9]" and link_arg = "Some (str ''x'')"
      and output_path = "str ''out.png''" and watermark_text = None and style = "()",
      OF inp wf plain_library_inverts ct fits ceiling prod.collapse[symmetric]]
  show ?thesis by (simp add: str_def)
qed

subsection \<open>A message beyond the ceiling of decode\<close>

lemma length_lcg_text: "length (lcg_text n x) = n"
  by (induction n arbitrary: x) (simp_all add: Let_def)

lemma lcg_text_ascii: "\<forall>c \<in> set (lcg_text n x). c < 0x80"
proof (induction n arbitrary: x)
  case 0
  show ?case by simp
next
  case (Suc n)
  let ?y = "(1103515245 * x + 12345) mod 2147483648"
  have "?y < 0x80 * 16777216" by simp
  then have "?y div 16777216 < 0x80" by (rule less_mult_imp_div_less)
  with Suc show ?case by (simp add: Let_def)
qed

lemma utf8_encode_ascii:
  assumes "\<forall>c \<in> set s. c < 0x80"
  shows "utf8_encode s = Inr (map of_nat s)"
proof -
  from assms have "concat (map utf8_char s) = s"
    by (induction s) (simp_all add: utf8_char_def)
  moreover from assms have "list_all scalar_value s"
    by (auto simp: list_all_iff scalar_value_def)
  ultimately show ?thesis by (simp add: utf8_encode_def)
qed

lemma plain_encrypt_ascii:
  assumes "\<forall>c \<in> set message. c < 0x80"
  shows "encrypt_message plain_library zero_entropy message []
           = Inr (replicate 32 0 @ 0x78 # map of_nat message)"
  by (simp add: encrypt_message_def full_message_def utf8_encode_ascii[OF assms]
      plain_library_def zero_key)

text \<open>
  Claim C1 says that the round trip holds for every message once the raster is large enough.
  It does not: \<^verbatim>\<open>decode\<close> refuses a length above 10,000,000 (line 328), and
  \<^verbatim>\<open>encode\<close> has no such limit. The message \<open>lcg_text 10000000 1\<close> has 10,000,000
  characters below U+0080, so its UTF-8 encoding has 10,000,000 bytes; \<open>plain_library\<close>
  makes 10,000,033 bytes of it (zlib at level 9 makes 8,775,622 bytes of it, and Fernet a
  token of 11,700,920 bytes of those). An image of 6000 by 5500 pixels has room for either:
  \<^verbatim>\<open>encode\<close> returns \<open>True\<close>, and \<^verbatim>\<open>decode\<close> of its output returns \<open>None\<close>.
\<close>

theorem roundtrip_counterexample:
  "snd (encode plain_library zero_entropy
          [str ''in.png'' \<mapsto> ImageFile (blank_image 6000 5500)]
          (str ''in.png'') (str ''out.png'') (lcg_text 10000000 1) None None ()) = Inr True
   \<and> decode plain_library
        (fst (encode plain_library zero_entropy
                [str ''in.png'' \<mapsto> ImageFile (blank_image 6000 5500)]
                (str ''in.png'') (str ''out.png'') (lcg_text 10000000 1) None None ()))
        (png_path plain_library (str ''out.png''))
       = Inr None"
proof -
  let ?ct = "replicate 32 0 @ 0x78 # map of_nat (lcg_text 10000000 1) :: bytes"
  have inp: "[str ''in.png'' \<mapsto> ImageFile (blank_image 6000 5500)] (str ''in.png'')
               = Some (ImageFile (blank_image 6000 5500))"
    by simp
  have wf: "length (pixels (blank_image 6000 5500))
              = width (blank_image 6000 5500) * height (blank_image 6000 5500)"
    by (simp add: blank_image_def)
  have ct: "encrypt_message plain_library zero_entropy (lcg_text 10000000 1)
              (case None of None \<Rightarrow> [] | Some l \<Rightarrow> l) = Inr ?ct"
    by (simp add: plain_encrypt_ascii[OF lcg_text_ascii])
  have len: "length ?ct = 10000033" by (simp add: length_lcg_text)
  have fits: "(74 + length ?ct) * 8
                \<le> width (blank_image 6000 5500) * height (blank_image 6000 5500) * 3"
    unfolding len by (simp add: blank_image_def)
  have small: "length ?ct < 2 ^ 64" unfolding len by simp
  note d = decode_encoded[where fs = "[str ''in.png'' \<mapsto> ImageFile (blank_image 6000 5500)]"
      and input_path = "str ''in.png''" and lib = plain_library and rnd = zero_entropy
      and message = "lcg_text 10000000 1" and link_arg = None
      and output_path = "str ''out.png''" and watermark_text = None and style = "()",
      OF inp wf plain_library_inverts ct fits small prod.collapse[symmetric]]
  from d(1) d(2) show ?thesis unfolding len by simp
qed

text \<open>
  No library escapes the ceiling. Compression and encryption that can be undone are
  injective, and there are more texts of 11,428,573 characters below U+0080 than byte strings
  of at most 10,000,000 bytes; so with every library some such text has a ciphertext of more
  than 10,000,000 bytes, \<^verbatim>\<open>encode\<close> embeds it in an image with room for it, and
  \<^verbatim>\<open>decode\<close> returns \<open>None\<close>.
\<close>

lemma geometric_below: "(\<Sum>i\<le>n. (256::nat) ^ i) < 256 ^ Suc n"
  by (induction n) simp_all

lemma bytes_up_to_card:
  "finite {bs :: bytes. length bs \<le> n} \<and> card {bs :: bytes. length bs \<le> n} < 256 ^ Suc n"
proof -
  have eq: "{bs :: bytes. length bs \<le> n} = {bs. set bs \<subseteq> UNIV \<and> length bs \<le> n}" by simp
  have "finite {bs :: bytes. set bs \<subseteq> UNIV \<and> length bs \<le> n}"
    by (rule finite_lists_length_le) simp
  moreover have "card {bs :: bytes. set bs \<subseteq> UNIV \<and> length bs \<le> n} = (\<Sum>i\<le>n. 256 ^ i)"
    using card_lists_length_le[of "UNIV :: byte set" n] by (simp add: card_word)
  ultimately show ?thesis unfolding eq using geometric_below[of n] by simp
qed

lemma ascii_texts_card:
  "card {m :: pystr. set m \<subseteq> {..<128} \<and> length m = L} = 128 ^ L"
  using card_lists_length_eq[of "{..<128::nat}" L] by simp

lemma power_256_le_128:
  assumes "8 * Suc n \<le> 7 * L"
  shows "(256::nat) ^ Suc n \<le> 128 ^ L"
proof -
  have "(256::nat) ^ Suc n = 2 ^ (8 * Suc n)"
    by (simp only: power_mult) simp
  also have "\<dots> \<le> 2 ^ (7 * L)"
    using assms by (intro power_increasing) simp_all
  also have "\<dots> = (128::nat) ^ L"
    by (simp only: power_mult) simp
  finally show ?thesis .
qed

lemma of_nat_bytes_inj:
  assumes "\<forall>c \<in> set m. c < 0x80" and "\<forall>c \<in> set m'. c < 0x80"
    and "(map of_nat m :: bytes) = map of_nat m'"
  shows "m = m'"
proof -
  from assms(1) have "\<forall>c \<in> set m. c < 256" by auto
  then have a: "map unat (map of_nat m :: bytes) = m" by (rule unat_of_nat_bytes)
  from assms(2) have "\<forall>c \<in> set m'. c < 256" by auto
  then have b: "map unat (map of_nat m' :: bytes) = m'" by (rule unat_of_nat_bytes)
  from a b assms(3) show ?thesis by simp
qed

lemma some_text_exceeds:
  assumes inv: "library_inverts lib" and big: "8 * Suc n \<le> 7 * L"
  shows "\<exists>message. length message = L \<and> (\<forall>c \<in> set message. c < 0x80)
           \<and> (\<exists>ct. encrypt_message lib rnd message [] = Inr ct \<and> n < length ct)"
proof (rule ccontr)
  assume no: "\<not> ?thesis"
  let ?key = "urlsafe_b64encode lib (token_bytes (key_source rnd) 32)"
  let ?f = "\<lambda>m. fernet_encrypt lib ?key (fernet_random rnd) (zlib_compress lib (map of_nat m))"
  let ?A = "{m :: pystr. set m \<subseteq> {..<128} \<and> length m = L}"
  let ?B = "{bs :: bytes. length bs \<le> n}"
  have enc: "encrypt_message lib rnd m [] = Inr (?f m)" if "m \<in> ?A" for m
  proof -
    from that have "\<forall>c \<in> set m. c < 0x80" by auto
    then show ?thesis
      by (simp add: encrypt_message_def full_message_def utf8_encode_ascii Let_def)
  qed
  have sub: "?f ` ?A \<subseteq> ?B"
  proof
    fix bs assume "bs \<in> ?f ` ?A"
    then obtain m where m: "m \<in> ?A" and bs: "bs = ?f m" by blast
    from m have "length m = L" "\<forall>c \<in> set m. c < 0x80" by auto
    with no enc[OF m] have "\<not> n < length (?f m)" by blast
    with bs show "bs \<in> ?B" by simp
  qed
  have inj: "inj_on ?f ?A"
  proof (rule inj_onI)
    fix m m' assume m: "m \<in> ?A" and m': "m' \<in> ?A" and eq: "?f m = ?f m'"
    from inv have dec: "fernet_decrypt lib ?key (?f x) = Some (zlib_compress lib (map of_nat x))"
      for x :: pystr
      by (simp add: library_inverts_def length_token_bytes)
    have "Some (zlib_compress lib (map of_nat m)) = fernet_decrypt lib ?key (?f m)"
      by (rule dec[symmetric])
    also have "\<dots> = fernet_decrypt lib ?key (?f m')"
      by (simp only: eq)
    also have "\<dots> = Some (zlib_compress lib (map of_nat m'))"
      by (rule dec)
    finally have c: "zlib_compress lib (map of_nat m) = zlib_compress lib (map of_nat m')"
      by (simp only: option.inject)
    from inv have z: "zlib_decompress lib (zlib_compress lib d) = Some d" for d
      by (simp add: library_inverts_def)
    have "Some (map of_nat m :: bytes) = zlib_decompress lib (zlib_compress lib (map of_nat m))"
      by (rule z[symmetric])
    also have "\<dots> = zlib_decompress lib (zlib_compress lib (map of_nat m'))"
      by (simp only: c)
    also have "\<dots> = Some (map of_nat m')"
      by (rule z)
    finally have "(map of_nat m :: bytes) = map of_nat m'"
      by (simp only: option.inject)
    moreover from m m' have "\<forall>c \<in> set m. c < 0x80" "\<forall>c \<in> set m'. c < 0x80" by auto
    ultimately show "m = m'" using of_nat_bytes_inj by blast
  qed
  from bytes_up_to_card[of n] have fin: "finite ?B" and cB: "card ?B < 256 ^ Suc n" by simp_all
  from inj sub fin have "card ?A \<le> card ?B" by (rule card_inj_on_le)
  with cB have "128 ^ L < (256::nat) ^ Suc n" by (simp add: ascii_texts_card)
  with power_256_le_128[OF big] show False by simp
qed

lemma ceiling_reached_by_every_library:
  assumes "library_inverts lib"
  shows "\<exists>message. length message = 11428573 \<and> (\<forall>c \<in> set message. c < 0x80)
           \<and> (\<exists>ct. encrypt_message lib rnd message [] = Inr ct \<and> 10000000 < length ct)"
  by (rule some_text_exceeds[OF assms]) simp

lemma roundtrip_fails_for_every_library:
  assumes inv: "library_inverts lib"
    and sizes: "\<And>k r d. length (fernet_encrypt lib k r d) < 2 ^ 64"
  shows "\<exists>message img fs'.
           length message = 11428573 \<and> (\<forall>c \<in> set message. c < 0x80)
         \<and> encode lib rnd [input_path \<mapsto> ImageFile img] input_path output_path message
               None None style = (fs', Inr True)
         \<and> decode lib fs' (png_path lib output_path) = Inr None"
proof -
  from ceiling_reached_by_every_library[OF inv, of rnd]
  obtain message ct where m: "length message = 11428573" "\<forall>c \<in> set message. c < 0x80"
    and ct: "encrypt_message lib rnd message [] = Inr ct" and long: "10000000 < length ct"
    by blast
  let ?img = "blank_image ((74 + length ct) * 8) 1"
  let ?fs = "[input_path \<mapsto> ImageFile ?img]"
  from ct have small: "length ct < 2 ^ 64"
    using sizes by (auto simp: encrypt_message_def Let_def split: sum.splits)
  have inp: "?fs input_path = Some (ImageFile ?img)" by simp
  have wf: "length (pixels ?img) = width ?img * height ?img"
    by (simp add: blank_image_def)
  have ct': "encrypt_message lib rnd message (case None of None \<Rightarrow> [] | Some l \<Rightarrow> l) = Inr ct"
    using ct by simp
  have fits: "(74 + length ct) * 8 \<le> width ?img * height ?img * 3"
    by (simp add: blank_image_def)
  note d = decode_encoded[where fs = ?fs and input_path = input_path and lib = lib
      and rnd = rnd and message = message and link_arg = None and output_path = output_path
      and watermark_text = None and style = style,
      OF inp wf inv ct' fits small prod.collapse[symmetric]]
  from d(1) have "encode lib rnd ?fs input_path output_path message None None style
                    = (fst (encode lib rnd ?fs input_path output_path message None None style),
                       Inr True)"
    by (simp add: prod_eq_iff)
  moreover from d(2) long
  have "decode lib (fst (encode lib rnd ?fs input_path output_path message None None style))
          (png_path lib output_path) = Inr None"
    by simp
  ultimately show ?thesis using m by blast
qed

subsection \<open>The empty link\<close>

text \<open>
  Claim C9: \<^verbatim>\<open>encode\<close> with the empty string for a link does what \<^verbatim>\<open>encode\<close>
  without a link does; the text that is encoded is the message alone, so the hidden data is
  the header in front of the encrypted, compressed UTF-8 bytes of the message; and, under the
  conditions of the round trip, \<^verbatim>\<open>decode\<close> of the result returns the bare message.
\<close>

theorem empty_link_is_no_link:
  "encode lib rnd fs input_path output_path message (Some []) watermark_text style
     = encode lib rnd fs input_path output_path message None watermark_text style
   \<and> full_message message [] = message
   \<and> data_to_hide lib rnd message [] =
       (case utf8_encode message of
          Inl e \<Rightarrow> Inl e
        | Inr message_bytes \<Rightarrow>
            (let ciphertext =
                   fernet_encrypt lib (urlsafe_b64encode lib (token_bytes (key_source rnd) 32))
                     (fernet_random rnd) (zlib_compress lib message_bytes)
             in case pack_header rnd (length ciphertext) of
                  Inl e \<Rightarrow> Inl e
                | Inr header_bytes \<Rightarrow> Inr (header_bytes @ ciphertext)))
   \<and> (fs input_path = Some (ImageFile img)
        \<and> length (pixels img) = width img * height img
        \<and> library_inverts lib
        \<and> encrypt_message lib rnd message [] = Inr ciphertext
        \<and> (74 + length ciphertext) * 8 \<le> width img * height img * 3
        \<and> length ciphertext \<le> 10000000
      \<longrightarrow> decode lib
            (fst (encode lib rnd fs input_path output_path message (Some []) watermark_text style))
            (png_path lib output_path)
          = Inr (Some message))"
proof (intro conjI impI)
  show "encode lib rnd fs input_path output_path message (Some []) watermark_text style
          = encode lib rnd fs input_path output_path message None watermark_text style"
    by (simp add: encode_def)
  show "full_message message [] = message"
    by (simp add: full_message_def)
  show "data_to_hide lib rnd message [] =
       (case utf8_encode message of
          Inl e \<Rightarrow> Inl e
        | Inr message_bytes \<Rightarrow>
            (let ciphertext =
                   fernet_encrypt lib (urlsafe_b64encode lib (token_bytes (key_source rnd) 32))
                     (fernet_random rnd) (zlib_compress lib message_bytes)
             in case pack_header rnd (length ciphertext) of
                  Inl e \<Rightarrow> Inl e
                | Inr header_bytes \<Rightarrow> Inr (header_bytes @ ciphertext)))"
    by (simp add: data_to_hide_def encrypt_message_def full_message_def Let_def
        split: sum.splits)
next
  assume h: "fs input_path = Some (ImageFile img)
        \<and> length (pixels img) = width img * height img
        \<and> library_inverts lib
        \<and> encrypt_message lib rnd message [] = Inr ciphertext
        \<and> (74 + length ciphertext) * 8 \<le> width img * height img * 3
        \<and> length ciphertext \<le> 10000000"
  then have ct: "encrypt_message lib rnd message (case Some [] of None \<Rightarrow> [] | Some l \<Rightarrow> l)
                   = Inr ciphertext"
    and small: "length ciphertext < 2 ^ 64"
    by simp_all
  from h have inp: "fs input_path = Some (ImageFile img)"
    and wf: "length (pixels img) = width img * height img"
    and lib: "library_inverts lib"
    and fits: "(74 + length ciphertext) * 8 \<le> width img * height img * 3"
    and ceiling: "length ciphertext \<le> 10000000"
    by simp_all
  have "decode lib
          (fst (encode lib rnd fs input_path output_path message (Some []) watermark_text style))
          (png_path lib output_path) =
           (if length ciphertext > 10000000 then Inr None
            else Inr (Some (full_message message (case Some [] of None \<Rightarrow> [] | Some l \<Rightarrow> l))))"
    using inp wf lib ct fits small prod.collapse[symmetric] by (rule decode_encoded(2))
  with ceiling
  show "decode lib
          (fst (encode lib rnd fs input_path output_path message (Some []) watermark_text style))
          (png_path lib output_path)
        = Inr (Some message)"
    by (simp add: full_message_def)
qed

theorem empty_link_is_no_link_witness:
  "encode plain_library zero_entropy [str ''in.png'' \<mapsto> ImageFile (blank_image 16 18)]
     (str ''in.png'') (str ''out.png'') (str ''h'') (Some []) None ()
   = encode plain_library zero_entropy [str ''in.png'' \<mapsto> ImageFile (blank_image 16 18)]
       (str ''in.png'') (str ''out.png'') (str ''h'') None None ()
   \<and> decode plain_library
        (fst (encode plain_library zero_entropy
                [str ''in.png'' \<mapsto> ImageFile (blank_image 16 18)]
                (str ''in.png'') (str ''out.png'') (str ''h'') (Some []) None ()))
        (png_path plain_library (str ''out.png''))
       = Inr (Some (str ''h''))"
proof -
  note t = empty_link_is_no_link[where fs = "[str ''in.png'' \<mapsto> ImageFile (blank_image 16 18)]"
      and input_path = "str ''in.png''" and lib = plain_library and rnd = zero_entropy
      and message = "str ''h''" and output_path = "str ''out.png''" and watermark_text = None
      and style = "()" and img = "blank_image 16 18"
      and ciphertext = "replicate 32 0 @ [0x78, 0x68]"]
  have hyp: "[str ''in.png'' \<mapsto> ImageFile (blank_image 16 18)] (str ''in.png'')
               = Some (ImageFile (blank_image 16 18))
        \<and> length (pixels (blank_image 16 18))
            = width (blank_image 16 18) * height (blank_image 16 18)
        \<and> library_inverts plain_library
        \<and> encrypt_message plain_library zero_entropy (str ''h'') []
            = Inr (replicate 32 0 @ [0x78, 0x68])
        \<and> (74 + length (replicate 32 (0::byte) @ [0x78, 0x68])) * 8
            \<le> width (blank_image 16 18) * height (blank_image 16 18) * 3
        \<and> length (replicate 32 (0::byte) @ [0x78, 0x68]) \<le> 10000000"
    by (simp add: plain_library_inverts plain_encrypt_h blank_image_def)
  from t hyp show ?thesis by blast
qed

end
